theory Spec2Isabelle
  imports Main "HOL-Library.Word"
begin

unbundle bit_operations_syntax

section \<open>Machine types\<close>

type_synonym byte = "8 word"
type_synonym uint256 = "256 word"
type_synonym arith_uint256 = "256 word"
type_synonym uint160 = "160 word"

section \<open>Byte streams and serializers\<close>

text \<open>
  A stream is the list of its unread bytes. A reader returns the value read, or the
  exception thrown, together with the number of bytes it took from the stream before it
  returned or threw; the caller goes on at \<open>drop k s\<close>.
\<close>

datatype exn = ios_base_failure

type_synonym 'a reader = "byte list \<Rightarrow> (exn + 'a) \<times> nat"

record 'a codec =
  wr :: "'a \<Rightarrow> byte list"
  rd :: "'a reader"

text \<open>
  Modelled from the spec: \<^verbatim>\<open>READWRITE\<close> of \<^verbatim>\<open>uint16_t\<close> and \<^verbatim>\<open>uint32_t\<close> (serialize.h and
  streams.h are not among the sources). The tag is a 2-byte field (spec 4.1), the version
  a 4-byte field, least significant byte first; a read past the end of the stream throws
  and takes nothing.
\<close>

fun le_word :: "byte list \<Rightarrow> 'a::len word" where
  "le_word [] = 0"
| "le_word (b # bs) = ucast b OR push_bit 8 (le_word bs)"

definition write_u16 :: "16 word \<Rightarrow> byte list" where
  "write_u16 w = [ucast w, ucast (drop_bit 8 w)]"

definition read_u16 :: "16 word reader" where
  "read_u16 s = (if length s < 2 then (Inl ios_base_failure, 0) else (Inr (le_word (take 2 s)), 2))"

definition write_u32 :: "32 word \<Rightarrow> byte list" where
  "write_u32 w = [ucast w, ucast (drop_bit 8 w), ucast (drop_bit 16 w), ucast (drop_bit 24 w)]"

definition read_u32 :: "32 word reader" where
  "read_u32 s = (if length s < 4 then (Inl ios_base_failure, 0) else (Inr (le_word (take 4 s)), 4))"

text \<open>
  The other serializers that pbaas.h uses are defined outside the sources and are
  parameters of the model: \<^verbatim>\<open>VARINT\<close> of an \<^verbatim>\<open>int32_t\<close>, \<^verbatim>\<open>uint256\<close>,
  \<^verbatim>\<open>std::vector<uint256>\<close>, and the four payload classes \<^verbatim>\<open>CBlockHeaderAndProof\<close> (\<open>'h\<close>),
  \<^verbatim>\<open>CPartialTransactionProof\<close> (\<open>'t\<close>), \<^verbatim>\<open>CBlockHeaderProof\<close> (\<open>'r\<close>) and
  \<^verbatim>\<open>CReserveTransfer\<close> (\<open>'x\<close>), whose types are parameters too.
\<close>

record ('h, 't, 'r, 'x) serializers =
  ser_varint :: "32 word codec"
  ser_uint256 :: "uint256 codec"
  ser_vector_uint256 :: "uint256 list codec"
  ser_CBlockHeaderAndProof :: "'h codec"
  ser_CPartialTransactionProof :: "'t codec"
  ser_CBlockHeaderProof :: "'r codec"
  ser_CReserveTransfer :: "'x codec"

section \<open>Chain objects (pbaas.h, lines 56-68 and 127-191)\<close>

text \<open>\<^verbatim>\<open>enum CHAIN_OBJECT_TYPES\<close>, at the width of \<^verbatim>\<open>CBaseChainObject::objectType\<close>.\<close>

definition CHAINOBJ_INVALID :: "16 word" where "CHAINOBJ_INVALID = 0"
definition CHAINOBJ_HEADER :: "16 word" where "CHAINOBJ_HEADER = 1"
definition CHAINOBJ_HEADER_REF :: "16 word" where "CHAINOBJ_HEADER_REF = 2"
definition CHAINOBJ_TRANSACTION_PROOF :: "16 word" where "CHAINOBJ_TRANSACTION_PROOF = 3"
definition CHAINOBJ_PROOF_ROOT :: "16 word" where "CHAINOBJ_PROOF_ROOT = 4"
definition CHAINOBJ_PRIORBLOCKS :: "16 word" where "CHAINOBJ_PRIORBLOCKS = 5"
definition CHAINOBJ_RESERVETRANSFER :: "16 word" where "CHAINOBJ_RESERVETRANSFER = 6"
definition CHAINOBJ_COMPOSITEOBJECT :: "16 word" where "CHAINOBJ_COMPOSITEOBJECT = 7"
definition CHAINOBJ_CROSSCHAINPROOF :: "16 word" where "CHAINOBJ_CROSSCHAINPROOF = 8"

record CPriorBlocksCommitment =
  priorBlocks :: "uint256 list"
  pastBlockType :: uint256

text \<open>
  A \<^verbatim>\<open>CBaseChainObject *\<close> points to a \<^verbatim>\<open>CChainObject<T>\<close> for one of the payload classes, or
  to a plain \<^verbatim>\<open>CBaseChainObject\<close> (\<open>NoObject\<close>). The tag \<open>objectType\<close> is a field of its
  own: nothing in the class ties it to \<open>T\<close>. \<^verbatim>\<open>CCompositeChainObject\<close> adds no field to
  \<^verbatim>\<open>CCrossChainProof\<close> ("must remain cast/data compatible"), so both are the payload
  \<open>CrossChainProof\<close>.
\<close>

datatype ('h, 't, 'r, 'x) CBaseChainObject =
  ChainObject (objectType: "16 word") (object: "('h, 't, 'r, 'x) payload")
and ('h, 't, 'r, 'x) payload =
    NoObject
  | HeaderAndProof 'h
  | PartialTransactionProof 't
  | ProofRoot uint256
  | HeaderProof 'r
  | PriorBlocks CPriorBlocksCommitment
  | ReserveTransfer 'x
  | CrossChainProof "('h, 't, 'r, 'x) CCrossChainProof"
and ('h, 't, 'r, 'x) CCrossChainProof =
  CCrossChainProof (version: "32 word") (chainObjects: "('h, 't, 'r, 'x) CBaseChainObject list")

definition VERSION_INVALID :: "32 word" where "VERSION_INVALID = 0"
definition VERSION_FIRST :: "32 word" where "VERSION_FIRST = 1"
definition VERSION_CURRENT :: "32 word" where "VERSION_CURRENT = 1"
definition VERSION_LAST :: "32 word" where "VERSION_LAST = 1"

text \<open>\<^verbatim>\<open>CPriorBlocksCommitment::SerializationOp\<close>, writing and reading.\<close>

definition CPriorBlocksCommitment_write ::
    "('h, 't, 'r, 'x) serializers \<Rightarrow> CPriorBlocksCommitment \<Rightarrow> byte list" where
  "CPriorBlocksCommitment_write S c =
     wr (ser_vector_uint256 S) (priorBlocks c) @ wr (ser_uint256 S) (pastBlockType c)"

definition CPriorBlocksCommitment_read ::
    "('h, 't, 'r, 'x) serializers \<Rightarrow> CPriorBlocksCommitment reader" where
  "CPriorBlocksCommitment_read S s =
     (case rd (ser_vector_uint256 S) s of
        (Inl e, k) \<Rightarrow> (Inl e, k)
      | (Inr pb, k) \<Rightarrow>
          (case rd (ser_uint256 S) (drop k s) of
             (Inl e, m) \<Rightarrow> (Inl e, k + m)
           | (Inr t, m) \<Rightarrow> (Inr \<lparr>priorBlocks = pb, pastBlockType = t\<rparr>, k + m)))"

section \<open>Writing a proof container (pbaas.h, lines 382-391, 470-473, 588-640)\<close>

text \<open>
  \<^verbatim>\<open>CChainObject<T>::SerializationOp\<close> writes the base class, that is the tag, and then the
  object. \<^verbatim>\<open>DehydrateChainObject\<close> casts the pointer to the \<^verbatim>\<open>CChainObject<T>\<close> that the tag
  names and writes that; it returns true, or false for a tag it does not know, having
  written nothing. When the object behind the pointer is not of the type cast to, the
  C++ has no defined result: \<open>None\<close>. \<^verbatim>\<open>CCrossChainProof::SerializationOp\<close> ignores the
  returned flag.
\<close>

definition CChainObject_Serialize :: "16 word \<Rightarrow> byte list \<Rightarrow> (bool \<times> byte list) option" where
  "CChainObject_Serialize objType object_bytes = Some (True, write_u16 objType @ object_bytes)"

fun Serialize :: "('h, 't, 'r, 'x) serializers \<Rightarrow> ('h, 't, 'r, 'x) CCrossChainProof \<Rightarrow> byte list option"
and CCompositeChainObject_Serialize ::
    "('h, 't, 'r, 'x) serializers \<Rightarrow> ('h, 't, 'r, 'x) CCrossChainProof \<Rightarrow> byte list option"
and dehydrate_all ::
    "('h, 't, 'r, 'x) serializers \<Rightarrow> ('h, 't, 'r, 'x) CBaseChainObject list \<Rightarrow> byte list option"
and DehydrateChainObject ::
    "('h, 't, 'r, 'x) serializers \<Rightarrow> ('h, 't, 'r, 'x) CBaseChainObject \<Rightarrow> (bool \<times> byte list) option"
where
  "Serialize S (CCrossChainProof v objs) =
     (case dehydrate_all S objs of
        None \<Rightarrow> None
      | Some bs \<Rightarrow> Some (write_u32 v @ wr (ser_varint S) (of_nat (length objs)) @ bs))"
| "CCompositeChainObject_Serialize S c = Serialize S c"
| "dehydrate_all S [] = Some []"
| "dehydrate_all S (oneVal # rest) =
     (case DehydrateChainObject S oneVal of
        None \<Rightarrow> None
      | Some (_, b) \<Rightarrow> (case dehydrate_all S rest of None \<Rightarrow> None | Some bs \<Rightarrow> Some (b @ bs)))"
| "DehydrateChainObject S (ChainObject t p) =
     (if t = CHAINOBJ_HEADER then
        (case p of
           HeaderAndProof x \<Rightarrow> CChainObject_Serialize t (wr (ser_CBlockHeaderAndProof S) x)
         | _ \<Rightarrow> None)
      else if t = CHAINOBJ_TRANSACTION_PROOF then
        (case p of
           PartialTransactionProof x \<Rightarrow> CChainObject_Serialize t (wr (ser_CPartialTransactionProof S) x)
         | _ \<Rightarrow> None)
      else if t = CHAINOBJ_PROOF_ROOT then
        (case p of ProofRoot x \<Rightarrow> CChainObject_Serialize t (wr (ser_uint256 S) x) | _ \<Rightarrow> None)
      else if t = CHAINOBJ_HEADER_REF then
        (case p of
           HeaderProof x \<Rightarrow> CChainObject_Serialize t (wr (ser_CBlockHeaderProof S) x)
         | _ \<Rightarrow> None)
      else if t = CHAINOBJ_PRIORBLOCKS then
        (case p of
           PriorBlocks x \<Rightarrow> CChainObject_Serialize t (CPriorBlocksCommitment_write S x)
         | _ \<Rightarrow> None)
      else if t = CHAINOBJ_RESERVETRANSFER then
        (case p of
           ReserveTransfer x \<Rightarrow> CChainObject_Serialize t (wr (ser_CReserveTransfer S) x)
         | _ \<Rightarrow> None)
      else if t = CHAINOBJ_CROSSCHAINPROOF then
        (case p of
           CrossChainProof x \<Rightarrow>
             (case Serialize S x of None \<Rightarrow> None | Some bs \<Rightarrow> CChainObject_Serialize t bs)
         | _ \<Rightarrow> None)
      else if t = CHAINOBJ_COMPOSITEOBJECT then
        (case p of
           CrossChainProof x \<Rightarrow>
             (case CCompositeChainObject_Serialize S x of
                None \<Rightarrow> None
              | Some bs \<Rightarrow> CChainObject_Serialize t bs)
         | _ \<Rightarrow> None)
      else Some (False, []))"

section \<open>Reading a proof container (pbaas.h, lines 209-230 and 236-381)\<close>

text \<open>
  Modelled from the spec: \<^verbatim>\<open>DeleteOpRetObjects\<close> is declared in pbaas.h and defined outside the
  sources. It deletes the objects of the vector and leaves the vector empty (spec 4.2:
  "discard all already-decoded elements"; \<^verbatim>\<open>operator=\<close> calls it before reading into
  \<^verbatim>\<open>chainObjects\<close>).
\<close>

definition DeleteOpRetObjects ::
    "('h, 't, 'r, 'x) CBaseChainObject list \<Rightarrow> ('h, 't, 'r, 'x) CBaseChainObject list" where
  "DeleteOpRetObjects ora = []"

text \<open>
  One branch of the switch: the payload is read, and when no exception was thrown a new
  \<^verbatim>\<open>CChainObject\<close> with the tag and the payload is the object to store.
\<close>

definition new_object :: "16 word \<Rightarrow> ('a \<Rightarrow> ('h, 't, 'r, 'x) payload) \<Rightarrow> (exn + 'a) \<times> nat \<Rightarrow>
    (exn + ('h, 't, 'r, 'x) CBaseChainObject option) \<times> nat" where
  "new_object objType C res =
     (case res of
        (Inl e, k) \<Rightarrow> (Inl e, k)
      | (Inr obj, k) \<Rightarrow> (Inr (Some (ChainObject objType (C obj))), k))"

text \<open>
  The read branch of \<^verbatim>\<open>CCrossChainProof::SerializationOp\<close>, reading into a container that
  holds \<open>objs0\<close>:
  \<^item> \<open>SerializationOp_read\<close> reads the version and the count, both outside the try block, so
    an exception there reaches the caller (\<open>Inl\<close>); then it runs the loop, and when the loop
    ended with \<open>error\<close> set it calls \<^verbatim>\<open>DeleteOpRetObjects\<close>;
  \<^item> \<open>read_objects\<close> is the loop \<^verbatim>\<open>for (i = 0; i < proofSize && !error; i++)\<close> with the try
    block as its body: it returns the flag \<open>error\<close> and the vector;
  \<^item> \<open>read_object\<close> is the try block up to the \<^verbatim>\<open>push_back\<close>: the exception thrown, or the
    pointer \<^verbatim>\<open>pobj\<close> (\<open>None\<close> is the null pointer that no case of the switch replaced);
  \<^item> \<open>read_container_object\<close> is the body of the two container cases:
    \<^verbatim>\<open>CCrossChainProof obj; READWRITE(obj); ... ->object = obj;\<close>;
  \<^item> \<open>CCrossChainProof_assign\<close> is \<^verbatim>\<open>operator=\<close>: the operand is written to a new stream, the
    vector is emptied, and the container reads itself from that stream.

  The assignment enters the reader again on a stream that is not a part of the one being
  read. The argument \<open>fuel\<close> bounds how many assignments may be nested in each other; an
  assignment without fuel has no result (\<open>None\<close>), and neither has one whose operand
  cannot be written. All other recursion is on the length of the stream. More fuel never
  changes a result (lemma \<open>fuel_mono_all\<close>).
\<close>

function SerializationOp_read :: "nat \<Rightarrow> ('h, 't, 'r, 'x) serializers \<Rightarrow>
    ('h, 't, 'r, 'x) CBaseChainObject list \<Rightarrow> byte list \<Rightarrow>
    ((exn + ('h, 't, 'r, 'x) CCrossChainProof) \<times> nat) option"
and read_objects :: "nat \<Rightarrow> ('h, 't, 'r, 'x) serializers \<Rightarrow> nat \<Rightarrow> byte list \<Rightarrow>
    ('h, 't, 'r, 'x) CBaseChainObject list \<Rightarrow>
    ((bool \<times> ('h, 't, 'r, 'x) CBaseChainObject list) \<times> nat) option"
and read_object :: "nat \<Rightarrow> ('h, 't, 'r, 'x) serializers \<Rightarrow> byte list \<Rightarrow>
    ((exn + ('h, 't, 'r, 'x) CBaseChainObject option) \<times> nat) option"
and read_container_object :: "nat \<Rightarrow> ('h, 't, 'r, 'x) serializers \<Rightarrow> 16 word \<Rightarrow> byte list \<Rightarrow>
    ((exn + ('h, 't, 'r, 'x) CBaseChainObject option) \<times> nat) option"
and CCrossChainProof_assign :: "nat \<Rightarrow> ('h, 't, 'r, 'x) serializers \<Rightarrow>
    ('h, 't, 'r, 'x) CCrossChainProof \<Rightarrow> ('h, 't, 'r, 'x) CCrossChainProof \<Rightarrow>
    (exn + ('h, 't, 'r, 'x) CCrossChainProof) option"
where
  "SerializationOp_read fuel S objs0 s =
     (case read_u32 s of
        (Inl e, k) \<Rightarrow> Some (Inl e, k)
      | (Inr v, k) \<Rightarrow>
          (case rd (ser_varint S) (drop k s) of
             (Inl e, m) \<Rightarrow> Some (Inl e, k + m)
           | (Inr proofSize, m) \<Rightarrow>
               (case read_objects fuel S (nat (sint proofSize)) (drop m (drop k s)) objs0 of
                  None \<Rightarrow> None
                | Some ((error, objs), j) \<Rightarrow>
                    Some (Inr (CCrossChainProof v (if error then DeleteOpRetObjects objs else objs)),
                          k + m + j))))"
| "read_objects fuel S 0 s objs = Some ((False, objs), 0)"
| "read_objects fuel S (Suc n) s objs =
     (case read_object fuel S s of
        None \<Rightarrow> None
      | Some (Inl e, k) \<Rightarrow> Some ((True, objs), k)
      | Some (Inr pobj, k) \<Rightarrow>
          (case read_objects fuel S n (drop k s)
                  (case pobj of None \<Rightarrow> objs | Some obj \<Rightarrow> objs @ [obj]) of
             None \<Rightarrow> None
           | Some (r, j) \<Rightarrow> Some (r, k + j)))"
| "read_object fuel S s =
     (case read_u16 s of
        (Inl e, k) \<Rightarrow> Some (Inl e, k)
      | (Inr objType, k) \<Rightarrow>
          (case (if objType = CHAINOBJ_HEADER then
                   Some (new_object objType HeaderAndProof
                           (rd (ser_CBlockHeaderAndProof S) (drop k s)))
                 else if objType = CHAINOBJ_TRANSACTION_PROOF then
                   Some (new_object objType PartialTransactionProof
                           (rd (ser_CPartialTransactionProof S) (drop k s)))
                 else if objType = CHAINOBJ_PROOF_ROOT then
                   Some (new_object objType ProofRoot (rd (ser_uint256 S) (drop k s)))
                 else if objType = CHAINOBJ_HEADER_REF then
                   Some (new_object objType HeaderProof
                           (rd (ser_CBlockHeaderProof S) (drop k s)))
                 else if objType = CHAINOBJ_PRIORBLOCKS then
                   Some (new_object objType PriorBlocks (CPriorBlocksCommitment_read S (drop k s)))
                 else if objType = CHAINOBJ_RESERVETRANSFER then
                   Some (new_object objType ReserveTransfer
                           (rd (ser_CReserveTransfer S) (drop k s)))
                 else if objType = CHAINOBJ_CROSSCHAINPROOF then
                   read_container_object fuel S objType (drop k s)
                 else if objType = CHAINOBJ_COMPOSITEOBJECT then
                   read_container_object fuel S CHAINOBJ_COMPOSITEOBJECT (drop k s)
                 else Some (Inr None, 0)) of
             None \<Rightarrow> None
           | Some (r, m) \<Rightarrow> Some (r, k + m)))"
| "read_container_object fuel S objType s =
     (case SerializationOp_read fuel S [] s of
        None \<Rightarrow> None
      | Some (Inl e, m) \<Rightarrow> Some (Inl e, m)
      | Some (Inr obj, m) \<Rightarrow>
          (case CCrossChainProof_assign fuel S (CCrossChainProof VERSION_CURRENT []) obj of
             None \<Rightarrow> None
           | Some (Inl e) \<Rightarrow> Some (Inl e, m)
           | Some (Inr copied) \<Rightarrow>
               Some (Inr (Some (ChainObject objType (CrossChainProof copied))), m)))"
| "CCrossChainProof_assign 0 S this operand = None"
| "CCrossChainProof_assign (Suc fuel) S this operand =
     (case Serialize S operand of
        None \<Rightarrow> None
      | Some s \<Rightarrow>
          (case SerializationOp_read fuel S (DeleteOpRetObjects (chainObjects this)) s of
             None \<Rightarrow> None
           | Some (r, k) \<Rightarrow> Some r))"
  by pat_completeness auto
termination
  apply (relation "inv_image (less_than <*lex*> less_than <*lex*> less_than <*lex*> less_than)
     (\<lambda>x. case x of
        Inl (Inl (fuel, S, objs0, s)) \<Rightarrow> (fuel, length s, 2::nat, 0::nat)
      | Inl (Inr (fuel, S, n, s, objs)) \<Rightarrow> (fuel, length s, 1, n)
      | Inr (Inl (fuel, S, s)) \<Rightarrow> (fuel, length s, 0, 0)
      | Inr (Inr (Inl (fuel, S, t, s))) \<Rightarrow> (fuel, length s, 3, 0)
      | Inr (Inr (Inr (fuel, S, this, operand))) \<Rightarrow> (fuel, 0, 0, 0))")
  apply (auto simp add: read_u16_def read_u32_def split: if_splits)
  done

declare SerializationOp_read.simps [simp del] read_object.simps [simp del]
  read_container_object.simps [simp del]

text \<open>
  The copy constructor: \<^verbatim>\<open>s << oldObj; s >> *this;\<close> into a container whose vector is
  still empty.
\<close>

definition CCrossChainProof_copy :: "nat \<Rightarrow> ('h, 't, 'r, 'x) serializers \<Rightarrow>
    ('h, 't, 'r, 'x) CCrossChainProof \<Rightarrow> (exn + ('h, 't, 'r, 'x) CCrossChainProof) option" where
  "CCrossChainProof_copy fuel S oldObj =
     (case Serialize S oldObj of
        None \<Rightarrow> None
      | Some s \<Rightarrow>
          (case SerializationOp_read fuel S [] s of
             None \<Rightarrow> None
           | Some (r, k) \<Rightarrow> Some r))"

text \<open>
  \<^verbatim>\<open>IsValid\<close> (line 394). \<^verbatim>\<open>version\<close> is a \<^verbatim>\<open>uint32_t\<close>; the enumerators are converted to it,
  and the comparisons are unsigned.
\<close>

definition IsValid :: "('h, 't, 'r, 'x) CCrossChainProof \<Rightarrow> bool" where
  "IsValid c = (version c \<ge> VERSION_FIRST \<or> version c \<le> VERSION_LAST)"

definition Empty :: "('h, 't, 'r, 'x) CCrossChainProof \<Rightarrow> bool" where
  "Empty c = (length (chainObjects c) = 0)"

text \<open>
  The \<^verbatim>\<open>operator<<\<close> overloads (lines 417-457, 475-479). Each pushes a new
  \<^verbatim>\<open>CChainObject<T>(tag, x)\<close>; the constructor copies \<open>x\<close> into the object, which for a
  container is the copy constructor above.
\<close>

definition push_back :: "('h, 't, 'r, 'x) CCrossChainProof \<Rightarrow> ('h, 't, 'r, 'x) CBaseChainObject \<Rightarrow>
    ('h, 't, 'r, 'x) CCrossChainProof" where
  "push_back c obj = CCrossChainProof (version c) (chainObjects c @ [obj])"

definition append_CPartialTransactionProof ::
    "('h, 't, 'r, 'x) CCrossChainProof \<Rightarrow> 't \<Rightarrow> ('h, 't, 'r, 'x) CCrossChainProof" where
  "append_CPartialTransactionProof c partialTxProof =
     push_back c (ChainObject CHAINOBJ_TRANSACTION_PROOF (PartialTransactionProof partialTxProof))"

definition append_CBlockHeaderAndProof ::
    "('h, 't, 'r, 'x) CCrossChainProof \<Rightarrow> 'h \<Rightarrow> ('h, 't, 'r, 'x) CCrossChainProof" where
  "append_CBlockHeaderAndProof c headerRefProof =
     push_back c (ChainObject CHAINOBJ_HEADER_REF (HeaderAndProof headerRefProof))"

definition append_CBlockHeaderProof ::
    "('h, 't, 'r, 'x) CCrossChainProof \<Rightarrow> 'r \<Rightarrow> ('h, 't, 'r, 'x) CCrossChainProof" where
  "append_CBlockHeaderProof c headerProof =
     push_back c (ChainObject CHAINOBJ_HEADER (HeaderProof headerProof))"

definition append_CPriorBlocksCommitment ::
    "('h, 't, 'r, 'x) CCrossChainProof \<Rightarrow> CPriorBlocksCommitment \<Rightarrow> ('h, 't, 'r, 'x) CCrossChainProof" where
  "append_CPriorBlocksCommitment c priors =
     push_back c (ChainObject CHAINOBJ_PRIORBLOCKS (PriorBlocks priors))"

definition append_uint256 ::
    "('h, 't, 'r, 'x) CCrossChainProof \<Rightarrow> uint256 \<Rightarrow> ('h, 't, 'r, 'x) CCrossChainProof" where
  "append_uint256 c proofRoot = push_back c (ChainObject CHAINOBJ_PROOF_ROOT (ProofRoot proofRoot))"

definition append_CReserveTransfer ::
    "('h, 't, 'r, 'x) CCrossChainProof \<Rightarrow> 'x \<Rightarrow> ('h, 't, 'r, 'x) CCrossChainProof" where
  "append_CReserveTransfer c reserveTransfer =
     push_back c (ChainObject CHAINOBJ_RESERVETRANSFER (ReserveTransfer reserveTransfer))"

definition append_container :: "16 word \<Rightarrow> nat \<Rightarrow> ('h, 't, 'r, 'x) serializers \<Rightarrow>
    ('h, 't, 'r, 'x) CCrossChainProof \<Rightarrow> ('h, 't, 'r, 'x) CCrossChainProof \<Rightarrow>
    (exn + ('h, 't, 'r, 'x) CCrossChainProof) option" where
  "append_container objType fuel S c x =
     (case CCrossChainProof_copy fuel S x of
        None \<Rightarrow> None
      | Some (Inl e) \<Rightarrow> Some (Inl e)
      | Some (Inr copied) \<Rightarrow> Some (Inr (push_back c (ChainObject objType (CrossChainProof copied)))))"

definition append_CCrossChainProof :: "nat \<Rightarrow> ('h, 't, 'r, 'x) serializers \<Rightarrow>
    ('h, 't, 'r, 'x) CCrossChainProof \<Rightarrow> ('h, 't, 'r, 'x) CCrossChainProof \<Rightarrow>
    (exn + ('h, 't, 'r, 'x) CCrossChainProof) option" where
  "append_CCrossChainProof = append_container CHAINOBJ_CROSSCHAINPROOF"

definition append_CCompositeChainObject :: "nat \<Rightarrow> ('h, 't, 'r, 'x) serializers \<Rightarrow>
    ('h, 't, 'r, 'x) CCrossChainProof \<Rightarrow> ('h, 't, 'r, 'x) CCrossChainProof \<Rightarrow>
    (exn + ('h, 't, 'r, 'x) CCrossChainProof) option" where
  "append_CCompositeChainObject = append_container CHAINOBJ_COMPOSITEOBJECT"

section \<open>Notions of the specification\<close>

text \<open>The supported range of versions (spec 4.2: within [FIRST, LAST]).\<close>

definition version_supported :: "32 word \<Rightarrow> bool" where
  "version_supported v = (VERSION_FIRST \<le> v \<and> v \<le> VERSION_LAST)"

text \<open>The known tags: the case labels of the switch.\<close>

definition known_tag :: "16 word \<Rightarrow> bool" where
  "known_tag t = (t \<in> set [CHAINOBJ_HEADER, CHAINOBJ_TRANSACTION_PROOF, CHAINOBJ_PROOF_ROOT,
     CHAINOBJ_HEADER_REF, CHAINOBJ_PRIORBLOCKS, CHAINOBJ_RESERVETRANSFER,
     CHAINOBJ_CROSSCHAINPROOF, CHAINOBJ_COMPOSITEOBJECT])"

text \<open>
  A value round-trips through an external serializer when reading what was written for
  it, whatever follows in the stream, gives the value back and takes exactly the bytes
  written.
\<close>

definition roundtrips :: "'a codec \<Rightarrow> 'a \<Rightarrow> bool" where
  "roundtrips c x = (\<forall>rest. rd c (wr c x @ rest) = (Inr x, length (wr c x)))"

text \<open>
  The objects the round trip is claimed for: a supported tag with a payload of the
  type that tag stands for, the payload and the element count round-tripping through
  the external serializers, and fewer than \<open>2^31\<close> elements, the count being an
  \<^verbatim>\<open>int32_t\<close>; so for the objects of a nested container.
\<close>

fun serializable_proof :: "('h, 't, 'r, 'x) serializers \<Rightarrow> ('h, 't, 'r, 'x) CCrossChainProof \<Rightarrow> bool"
and serializable_objects :: "('h, 't, 'r, 'x) serializers \<Rightarrow> ('h, 't, 'r, 'x) CBaseChainObject list \<Rightarrow> bool"
and serializable_object :: "('h, 't, 'r, 'x) serializers \<Rightarrow> ('h, 't, 'r, 'x) CBaseChainObject \<Rightarrow> bool"
where
  "serializable_proof S (CCrossChainProof v objs) =
     (length objs < 2 ^ 31 \<and> roundtrips (ser_varint S) (of_nat (length objs)) \<and>
      serializable_objects S objs)"
| "serializable_objects S [] = True"
| "serializable_objects S (obj # objs) = (serializable_object S obj \<and> serializable_objects S objs)"
| "serializable_object S (ChainObject t p) =
     (case p of
        NoObject \<Rightarrow> False
      | HeaderAndProof x \<Rightarrow> t = CHAINOBJ_HEADER \<and> roundtrips (ser_CBlockHeaderAndProof S) x
      | PartialTransactionProof x \<Rightarrow>
          t = CHAINOBJ_TRANSACTION_PROOF \<and> roundtrips (ser_CPartialTransactionProof S) x
      | ProofRoot x \<Rightarrow> t = CHAINOBJ_PROOF_ROOT \<and> roundtrips (ser_uint256 S) x
      | HeaderProof x \<Rightarrow> t = CHAINOBJ_HEADER_REF \<and> roundtrips (ser_CBlockHeaderProof S) x
      | PriorBlocks x \<Rightarrow>
          t = CHAINOBJ_PRIORBLOCKS \<and> roundtrips (ser_vector_uint256 S) (priorBlocks x) \<and>
          roundtrips (ser_uint256 S) (pastBlockType x)
      | ReserveTransfer x \<Rightarrow> t = CHAINOBJ_RESERVETRANSFER \<and> roundtrips (ser_CReserveTransfer S) x
      | CrossChainProof x \<Rightarrow>
          (t = CHAINOBJ_CROSSCHAINPROOF \<or> t = CHAINOBJ_COMPOSITEOBJECT) \<and> serializable_proof S x)"

text \<open>How deep containers are nested in a container: the fuel its reading needs.\<close>

fun nesting :: "('h, 't, 'r, 'x) CCrossChainProof \<Rightarrow> nat"
and nesting_objects :: "('h, 't, 'r, 'x) CBaseChainObject list \<Rightarrow> nat"
and nesting_object :: "('h, 't, 'r, 'x) CBaseChainObject \<Rightarrow> nat"
where
  "nesting (CCrossChainProof v objs) = nesting_objects objs"
| "nesting_objects [] = 0"
| "nesting_objects (obj # objs) = max (nesting_object obj) (nesting_objects objs)"
| "nesting_object (ChainObject t p) = (case p of CrossChainProof x \<Rightarrow> Suc (nesting x) | _ \<Rightarrow> 0)"

text \<open>
  What the round trip of one container gives to the code that nests or copies it: with
  enough fuel, reading the bytes written for it, whatever follows them and whatever the
  reading container holds, appends its objects and takes exactly those bytes.
\<close>

definition reads_back :: "('h, 't, 'r, 'x) serializers \<Rightarrow> ('h, 't, 'r, 'x) CCrossChainProof \<Rightarrow> byte list \<Rightarrow> bool" where
  "reads_back S c bs =
     (\<forall>fuel rest objs0. nesting c \<le> fuel \<longrightarrow>
        SerializationOp_read fuel S objs0 (bs @ rest) =
          Some (Inr (CCrossChainProof (version c) (objs0 @ chainObjects c)), length bs))"

text \<open>
  Reading \<open>n\<close> elements from \<open>s\<close> meets an element whose decoding throws: the elements
  before it were read, and the try block of this one ends in the catch clause.
\<close>

fun element_raises :: "nat \<Rightarrow> ('h, 't, 'r, 'x) serializers \<Rightarrow> nat \<Rightarrow> byte list \<Rightarrow> bool" where
  "element_raises fuel S 0 s = False"
| "element_raises fuel S (Suc n) s =
     (case read_object fuel S s of
        None \<Rightarrow> False
      | Some (Inl e, k) \<Rightarrow> True
      | Some (Inr pobj, k) \<Rightarrow> element_raises fuel S n (drop k s))"

section \<open>COpRetProof (pbaas.h, lines 71-103)\<close>








section \<open>CPOSNonce (nonce.cpp)\<close>

text \<open>
  \<^verbatim>\<open>CVerusHashWriter\<close> is outside the sources. The two uses of it are parameters: \<open>H3\<close> hashes
  the serialized triple (pastHash, txid, voutNum), \<open>H1\<close> hashes one 256-bit value. The
  conversions \<^verbatim>\<open>UintToArith256\<close> and \<^verbatim>\<open>ArithToUint256\<close> keep the 256-bit value, and so does the
  constructor of \<^verbatim>\<open>CPOSNonce\<close> from a \<^verbatim>\<open>uint256\<close> (nonce.h, uint256.h and arith_uint256.h are
  not among the sources). A nonce is the 256-bit value it holds.
\<close>

definition entropy_mask :: arith_uint256 where
  "entropy_mask = 0xffffffffffffffffffffffff"

definition arNonce :: "(uint256 \<Rightarrow> uint256 \<Rightarrow> 32 word \<Rightarrow> uint256) \<Rightarrow>
    uint256 \<Rightarrow> uint256 \<Rightarrow> uint256 \<Rightarrow> 32 word \<Rightarrow> arith_uint256" where
  "arNonce H3 this pastHash txid voutNum =
     (this AND 0xffffffff) OR push_bit 32 (H3 pastHash txid voutNum AND entropy_mask)"

definition SetPOSEntropy :: "(uint256 \<Rightarrow> uint256 \<Rightarrow> 32 word \<Rightarrow> uint256) \<Rightarrow> (uint256 \<Rightarrow> uint256) \<Rightarrow>
    uint256 \<Rightarrow> uint256 \<Rightarrow> uint256 \<Rightarrow> 32 word \<Rightarrow> uint256" where
  "SetPOSEntropy H3 H1 this pastHash txid voutNum =
     (let ar = arNonce H3 this pastHash txid voutNum
      in push_bit 128 (H1 ar) OR ar)"

definition CheckPOSEntropy :: "(uint256 \<Rightarrow> uint256 \<Rightarrow> 32 word \<Rightarrow> uint256) \<Rightarrow> (uint256 \<Rightarrow> uint256) \<Rightarrow>
    uint256 \<Rightarrow> uint256 \<Rightarrow> uint256 \<Rightarrow> 32 word \<Rightarrow> bool" where
  "CheckPOSEntropy H3 H1 this pastHash txid voutNum =
     (let ar = arNonce H3 this pastHash txid voutNum
      in this = (push_bit 128 (H1 ar) OR ar))"

section \<open>CConnectedChains (pbaas.h, lines 834-964)\<close>

text \<open>
  A \<^verbatim>\<open>std::map\<close> is the list of its entries in iteration order, which is the strictly
  ascending order of the keys; \<^verbatim>\<open>begin()\<close> is the head of the list. The pointer stored in
  \<^verbatim>\<open>mergeMinedTargets\<close> is the ID of the chain whose entry of \<^verbatim>\<open>mergeMinedChains\<close> it points
  to. Of the chain data only the target of the candidate block is kept.
\<close>

definition std_map_ok :: "('k::linorder \<times> 'v) list \<Rightarrow> bool" where
  "std_map_ok m = sorted_wrt (<) (map fst m)"

record CConnectedChains =
  mergeMinedChains :: "(uint160 \<times> arith_uint256) list"
  mergeMinedTargets :: "(arith_uint256 \<times> uint160) list"

definition LowestTarget :: "CConnectedChains \<Rightarrow> arith_uint256" where
  "LowestTarget r = (case mergeMinedTargets r of [] \<Rightarrow> 0 | (target, chain) # rest \<Rightarrow> target)"

text \<open>
  Modelled from the spec: \<^verbatim>\<open>CConnectedChains::RemoveMergedBlock\<close> is declared in pbaas.h and
  defined outside the sources. Spec 4.3: "remove from both the chain map and target
  index; safe to call for an absent ID (no-op)".
\<close>

definition RemoveMergedBlock :: "uint160 \<Rightarrow> CConnectedChains \<Rightarrow> CConnectedChains" where
  "RemoveMergedBlock chainID r =
     (if chainID \<in> fst ` set (mergeMinedChains r) then
        r\<lparr>mergeMinedChains := filter (\<lambda>(k, d). k \<noteq> chainID) (mergeMinedChains r),
          mergeMinedTargets := filter (\<lambda>(t, owner). owner \<noteq> chainID) (mergeMinedTargets r)\<rparr>
      else r)"

section \<open>A concrete set of serializers\<close>

text \<open>
  An instance of the parameters, to run the model on concrete streams. Integers and
  hashes are little-endian at their width; \<open>VARINT\<close> and the vector's size prefix follow
  the variable-length formats of Bitcoin's serialize.h; the four payload classes are
  stood in for by 32-bit values.
\<close>

fun le_bytes :: "nat \<Rightarrow> 'a::len word \<Rightarrow> byte list" where
  "le_bytes 0 w = []"
| "le_bytes (Suc n) w = ucast w # le_bytes n (drop_bit 8 w)"

definition fixed_le :: "nat \<Rightarrow> 'a::len word codec" where
  "fixed_le n = \<lparr>wr = le_bytes n,
     rd = (\<lambda>s. if length s < n then (Inl ios_base_failure, 0) else (Inr (le_word (take n s)), n))\<rparr>"

fun varint_prefix :: "nat \<Rightarrow> byte list" where
  "varint_prefix n =
     (if n \<le> 0x7F then [of_nat n OR 0x80]
      else varint_prefix (n div 128 - 1) @ [of_nat (n mod 128) OR 0x80])"

declare varint_prefix.simps [simp del]

definition WriteVarInt :: "32 word \<Rightarrow> byte list" where
  "WriteVarInt n =
     (if sint n \<le> 0x7F then [ucast (n AND 0x7F)]
      else varint_prefix (unat n div 128 - 1) @ [ucast (n AND 0x7F)])"

fun ReadVarInt_loop :: "32 word \<Rightarrow> byte list \<Rightarrow> nat \<Rightarrow> (exn + 32 word) \<times> nat" where
  "ReadVarInt_loop n [] k = (Inl ios_base_failure, k)"
| "ReadVarInt_loop n (chData # s) k =
     (let n' = push_bit 7 n OR ucast (chData AND 0x7F)
      in if chData AND 0x80 \<noteq> 0 then ReadVarInt_loop (n' + 1) s (Suc k) else (Inr n', Suc k))"

definition ReadVarInt :: "32 word reader" where
  "ReadVarInt s = ReadVarInt_loop 0 s 0"

definition WriteCompactSize :: "nat \<Rightarrow> byte list" where
  "WriteCompactSize n =
     (if n < 253 then [of_nat n]
      else if n \<le> 0xFFFF then 253 # le_bytes 2 (of_nat n :: 16 word)
      else if n \<le> 0xFFFFFFFF then 254 # le_bytes 4 (of_nat n :: 32 word)
      else 255 # le_bytes 8 (of_nat n :: 64 word))"

definition MAX_SIZE :: nat where
  "MAX_SIZE = 0x02000000"

definition ReadCompactSize :: "nat reader" where
  "ReadCompactSize s =
     (case s of
        [] \<Rightarrow> (Inl ios_base_failure, 0)
      | chSize # s' \<Rightarrow>
          (case (if chSize < 253 then (Some (unat chSize), 1)
                 else if chSize = 253 then
                   (if length s' < 2 then (None, 1)
                    else let n = unat (le_word (take 2 s') :: 16 word)
                         in if n < 253 then (None, 3) else (Some n, 3))
                 else if chSize = 254 then
                   (if length s' < 4 then (None, 1)
                    else let n = unat (le_word (take 4 s') :: 32 word)
                         in if n < 0x10000 then (None, 5) else (Some n, 5))
                 else
                   (if length s' < 8 then (None, 1)
                    else let n = unat (le_word (take 8 s') :: 64 word)
                         in if n < 0x100000000 then (None, 9) else (Some n, 9))) of
             (None, k) \<Rightarrow> (Inl ios_base_failure, k)
           | (Some n, k) \<Rightarrow> if n > MAX_SIZE then (Inl ios_base_failure, k) else (Inr n, k)))"

fun read_uint256s :: "nat \<Rightarrow> byte list \<Rightarrow> (exn + uint256 list) \<times> nat" where
  "read_uint256s 0 s = (Inr [], 0)"
| "read_uint256s (Suc n) s =
     (if length s < 32 then (Inl ios_base_failure, 0)
      else (case read_uint256s n (drop 32 s) of
              (Inl e, k) \<Rightarrow> (Inl e, 32 + k)
            | (Inr xs, k) \<Rightarrow> (Inr (le_word (take 32 s) # xs), 32 + k)))"

definition vector_uint256 :: "uint256 list codec" where
  "vector_uint256 =
     \<lparr>wr = (\<lambda>v. WriteCompactSize (length v) @ concat (map (le_bytes 32) v)),
      rd = (\<lambda>s. case ReadCompactSize s of
                   (Inl e, k) \<Rightarrow> (Inl e, k)
                 | (Inr n, k) \<Rightarrow> (case read_uint256s n (drop k s) of (r, m) \<Rightarrow> (r, k + m)))\<rparr>"

definition wire :: "(32 word, 32 word, 32 word, 32 word) serializers" where
  "wire = \<lparr>ser_varint = \<lparr>wr = WriteVarInt, rd = ReadVarInt\<rparr>,
     ser_uint256 = fixed_le 32,
     ser_vector_uint256 = vector_uint256,
     ser_CBlockHeaderAndProof = \<lparr>wr = write_u32, rd = read_u32\<rparr>,
     ser_CPartialTransactionProof = \<lparr>wr = write_u32, rd = read_u32\<rparr>,
     ser_CBlockHeaderProof = \<lparr>wr = write_u32, rd = read_u32\<rparr>,
     ser_CReserveTransfer = \<lparr>wr = write_u32, rd = read_u32\<rparr>\<rparr>"

section \<open>Lemmas on the serializers\<close>

lemmas CHAINOBJ_defs = CHAINOBJ_INVALID_def CHAINOBJ_HEADER_def CHAINOBJ_HEADER_REF_def
  CHAINOBJ_TRANSACTION_PROOF_def CHAINOBJ_PROOF_ROOT_def CHAINOBJ_PRIORBLOCKS_def
  CHAINOBJ_RESERVETRANSFER_def CHAINOBJ_COMPOSITEOBJECT_def CHAINOBJ_CROSSCHAINPROOF_def

lemma le_word_u16: "le_word [ucast w, ucast (drop_bit 8 w)] = (w :: 16 word)"
proof (rule bit_word_eqI)
  fix n :: nat
  assume "n < LENGTH(16)"
  then consider "n < 8" | "8 \<le> n" "n < 16"
    by fastforce
  then show "bit (le_word [ucast w, ucast (drop_bit 8 w)] :: 16 word) n = bit w n"
    by cases (auto simp add: bit_simps)
qed

lemma le_word_u32:
  "le_word [ucast w, ucast (drop_bit 8 w), ucast (drop_bit 16 w), ucast (drop_bit 24 w)] = (w :: 32 word)"
proof (rule bit_word_eqI)
  fix n :: nat
  assume "n < LENGTH(32)"
  then consider "n < 8" | "8 \<le> n" "n < 16" | "16 \<le> n" "n < 24" | "24 \<le> n" "n < 32"
    by fastforce
  then show "bit (le_word [ucast w, ucast (drop_bit 8 w), ucast (drop_bit 16 w), ucast (drop_bit 24 w)] :: 32 word) n = bit w n"
    by cases (auto simp add: bit_simps)
qed

lemma read_write_u16: "read_u16 (write_u16 t @ rest) = (Inr t, 2)"
  using le_word_u16 [of t] by (simp add: read_u16_def write_u16_def del: le_word.simps)

lemma read_write_u32: "read_u32 (write_u32 v @ rest) = (Inr v, 4)"
  using le_word_u32 [of v] by (simp add: read_u32_def write_u32_def del: le_word.simps)

lemma length_write_u16: "length (write_u16 t) = 2"
  by (simp add: write_u16_def)

lemma length_write_u32: "length (write_u32 t) = 4"
  by (simp add: write_u32_def)

lemma proofSize_iterations:
  assumes "n < 2 ^ 31"
  shows "nat (sint (of_nat n :: 32 word)) = n"
proof -
  have "sint (of_nat n :: 32 word) = signed_take_bit 31 (int n)"
    by (simp add: signed_of_nat)
  also have "\<dots> = int n"
    using assms by (intro signed_take_bit_int_eq_self) auto
  finally show ?thesis by simp
qed




lemma new_object_Inr:
  "new_object t C (Inr x, k) = (Inr (Some (ChainObject t (C x))), k)"
  by (simp add: new_object_def)

lemma CPriorBlocksCommitment_roundtrip:
  assumes "roundtrips (ser_vector_uint256 S) (priorBlocks c)"
    and "roundtrips (ser_uint256 S) (pastBlockType c)"
  shows "CPriorBlocksCommitment_read S (CPriorBlocksCommitment_write S c @ rest) =
    (Inr c, length (CPriorBlocksCommitment_write S c))"
  using assms by (simp add: CPriorBlocksCommitment_read_def CPriorBlocksCommitment_write_def roundtrips_def)

lemma read_object_tagged:
  "read_object fuel S (write_u16 t @ bs) =
     (case (if t = CHAINOBJ_HEADER then
              Some (new_object t HeaderAndProof (rd (ser_CBlockHeaderAndProof S) bs))
            else if t = CHAINOBJ_TRANSACTION_PROOF then
              Some (new_object t PartialTransactionProof (rd (ser_CPartialTransactionProof S) bs))
            else if t = CHAINOBJ_PROOF_ROOT then
              Some (new_object t ProofRoot (rd (ser_uint256 S) bs))
            else if t = CHAINOBJ_HEADER_REF then
              Some (new_object t HeaderProof (rd (ser_CBlockHeaderProof S) bs))
            else if t = CHAINOBJ_PRIORBLOCKS then
              Some (new_object t PriorBlocks (CPriorBlocksCommitment_read S bs))
            else if t = CHAINOBJ_RESERVETRANSFER then
              Some (new_object t ReserveTransfer (rd (ser_CReserveTransfer S) bs))
            else if t = CHAINOBJ_CROSSCHAINPROOF then
              read_container_object fuel S t bs
            else if t = CHAINOBJ_COMPOSITEOBJECT then
              read_container_object fuel S CHAINOBJ_COMPOSITEOBJECT bs
            else Some (Inr None, 0)) of
        None \<Rightarrow> None
      | Some (r, m) \<Rightarrow> Some (r, 2 + m))"
  by (simp add: read_object.simps read_write_u16 length_write_u16)

lemma assign_reads_back:
  assumes "Serialize S x = Some bs" and "reads_back S x bs" and "nesting x < fuel"
  shows "CCrossChainProof_assign fuel S this x = Some (Inr x)"
proof -
  from assms(3) obtain f where f: "fuel = Suc f" and le: "nesting x \<le> f"
    by (cases fuel) auto
  from assms(2) le have "SerializationOp_read f S [] (bs @ []) =
      Some (Inr (CCrossChainProof (version x) ([] @ chainObjects x)), length bs)"
    unfolding reads_back_def by blast
  then show ?thesis
    by (simp add: f assms(1) DeleteOpRetObjects_def)
qed

lemma read_container_object_reads_back:
  assumes "Serialize S x = Some bs" and "reads_back S x bs" and "nesting x < fuel"
  shows "read_container_object fuel S t (bs @ rest) =
    Some (Inr (Some (ChainObject t (CrossChainProof x))), length bs)"
proof -
  from assms(2,3) have "SerializationOp_read fuel S [] (bs @ rest) =
      Some (Inr (CCrossChainProof (version x) ([] @ chainObjects x)), length bs)"
    unfolding reads_back_def by (meson less_imp_le)
  then show ?thesis
    by (simp add: read_container_object.simps assign_reads_back [OF assms])
qed

lemma roundtrip_all:
  "(serializable_proof S c \<longrightarrow> (\<exists>bs. Serialize S c = Some bs \<and> reads_back S c bs))"
  "(serializable_proof S c2 \<longrightarrow> (\<exists>bs. CCompositeChainObject_Serialize S c2 = Some bs \<and> reads_back S c2 bs))"
  "(serializable_objects S os \<longrightarrow>
      (\<exists>bs. dehydrate_all S os = Some bs \<and>
        (\<forall>fuel rest acc. nesting_objects os \<le> fuel \<longrightarrow>
           read_objects fuel S (length os) (bs @ rest) acc = Some ((False, acc @ os), length bs))))"
  "(serializable_object S obj \<longrightarrow>
      (\<exists>bs. DehydrateChainObject S obj = Some (True, bs) \<and>
        (\<forall>fuel rest. nesting_object obj \<le> fuel \<longrightarrow>
           read_object fuel S (bs @ rest) = Some (Inr (Some obj), length bs))))"
proof (induction S c and S c2 and S os and S obj
    rule: Serialize_CCompositeChainObject_Serialize_dehydrate_all_DehydrateChainObject.induct)
  case (1 S v objs)
  show ?case
  proof
    assume ok: "serializable_proof S (CCrossChainProof v objs)"
    then obtain bs where bs: "dehydrate_all S objs = Some bs"
      and rd: "\<And>fuel rest acc. nesting_objects objs \<le> fuel \<Longrightarrow>
        read_objects fuel S (length objs) (bs @ rest) acc = Some ((False, acc @ objs), length bs)"
      using 1 by auto
    from ok have n: "nat (sint (of_nat (length objs) :: 32 word)) = length objs"
      by (simp add: proofSize_iterations)
    from ok have vi: "\<And>rest. rd (ser_varint S) (wr (ser_varint S) (of_nat (length objs)) @ rest) =
        (Inr (of_nat (length objs)), length (wr (ser_varint S) (of_nat (length objs))))"
      by (simp add: roundtrips_def)
    show "\<exists>bs. Serialize S (CCrossChainProof v objs) = Some bs \<and> reads_back S (CCrossChainProof v objs) bs"
      by (simp add: reads_back_def SerializationOp_read.simps bs read_write_u32 length_write_u32 vi n rd)
  qed
next
  case (2 S c)
  then show ?case by simp
next
  case (3 S)
  then show ?case by simp
next
  case (4 S oneVal rest)
  show ?case
  proof
    assume ok: "serializable_objects S (oneVal # rest)"
    then obtain b where b: "DehydrateChainObject S oneVal = Some (True, b)"
      and rb: "\<And>fuel r. nesting_object oneVal \<le> fuel \<Longrightarrow>
        read_object fuel S (b @ r) = Some (Inr (Some oneVal), length b)"
      using 4(1) by auto
    from ok obtain bs where bs: "dehydrate_all S rest = Some bs"
      and rbs: "\<And>fuel r acc. nesting_objects rest \<le> fuel \<Longrightarrow>
        read_objects fuel S (length rest) (bs @ r) acc = Some ((False, acc @ rest), length bs)"
      using 4(2) [OF b refl] by auto
    show "\<exists>bs. dehydrate_all S (oneVal # rest) = Some bs \<and>
        (\<forall>fuel r acc. nesting_objects (oneVal # rest) \<le> fuel \<longrightarrow>
           read_objects fuel S (length (oneVal # rest)) (bs @ r) acc =
             Some ((False, acc @ oneVal # rest), length bs))"
      by (simp add: b bs rb rbs)
  qed
next
  case (5 S t p)
  show ?case
  proof
    assume ok: "serializable_object S (ChainObject t p)"
    show "\<exists>bs. DehydrateChainObject S (ChainObject t p) = Some (True, bs) \<and>
        (\<forall>fuel rest. nesting_object (ChainObject t p) \<le> fuel \<longrightarrow>
           read_object fuel S (bs @ rest) = Some (Inr (Some (ChainObject t p)), length bs))"
    proof (cases p)
      case NoObject
      with ok show ?thesis by simp
    next
      case (HeaderAndProof x)
      with ok show ?thesis
        by (simp add: CHAINOBJ_defs CChainObject_Serialize_def read_object_tagged new_object_Inr
            roundtrips_def length_write_u16)
    next
      case (PartialTransactionProof x)
      with ok show ?thesis
        by (simp add: CHAINOBJ_defs CChainObject_Serialize_def read_object_tagged new_object_Inr
            roundtrips_def length_write_u16)
    next
      case (ProofRoot x)
      with ok show ?thesis
        by (simp add: CHAINOBJ_defs CChainObject_Serialize_def read_object_tagged new_object_Inr
            roundtrips_def length_write_u16)
    next
      case (HeaderProof x)
      with ok show ?thesis
        by (simp add: CHAINOBJ_defs CChainObject_Serialize_def read_object_tagged new_object_Inr
            roundtrips_def length_write_u16)
    next
      case (PriorBlocks x)
      with ok show ?thesis
        by (simp add: CHAINOBJ_defs CChainObject_Serialize_def read_object_tagged new_object_Inr
            CPriorBlocksCommitment_roundtrip length_write_u16)
    next
      case (ReserveTransfer x)
      with ok show ?thesis
        by (simp add: CHAINOBJ_defs CChainObject_Serialize_def read_object_tagged new_object_Inr
            roundtrips_def length_write_u16)
    next
      case (CrossChainProof x)
      from ok CrossChainProof have tag: "t = CHAINOBJ_CROSSCHAINPROOF \<or> t = CHAINOBJ_COMPOSITEOBJECT"
        and okx: "serializable_proof S x"
        by simp_all
      from tag show ?thesis
      proof
        assume t: "t = CHAINOBJ_CROSSCHAINPROOF"
        have "serializable_proof S x \<longrightarrow> (\<exists>bs. Serialize S x = Some bs \<and> reads_back S x bs)"
          using 5(1) [of x] t CrossChainProof by (simp add: CHAINOBJ_defs)
        with okx obtain bs where bs: "Serialize S x = Some bs" and rd: "reads_back S x bs"
          by auto
        show ?thesis
          using t CrossChainProof
          by (simp add: bs CHAINOBJ_defs CChainObject_Serialize_def read_object_tagged
              read_container_object_reads_back [OF bs rd] Suc_le_eq length_write_u16)
      next
        assume t: "t = CHAINOBJ_COMPOSITEOBJECT"
        have "serializable_proof S x \<longrightarrow>
          (\<exists>bs. CCompositeChainObject_Serialize S x = Some bs \<and> reads_back S x bs)"
          using 5(2) [of x] t CrossChainProof by (simp add: CHAINOBJ_defs)
        with okx obtain bs where bs: "Serialize S x = Some bs" and rd: "reads_back S x bs"
          by auto
        show ?thesis
          using t CrossChainProof
          by (simp add: bs CHAINOBJ_defs CChainObject_Serialize_def read_object_tagged
              read_container_object_reads_back [OF bs rd] Suc_le_eq length_write_u16)
      qed
    qed
  qed
qed

lemma length_le_bytes: "length (le_bytes n w) = n"
  by (induction n arbitrary: w) simp_all

lemma le_word_le_bytes: "le_word (le_bytes n w) = take_bit (8 * n) w"
proof (induction n arbitrary: w)
  case 0
  show ?case by simp
next
  case (Suc n)
  show ?case
    apply (simp add: Suc)
    apply (rule bit_word_eqI)
    apply (auto simp add: bit_simps)
    done
qed

lemma fixed_le_roundtrips:
  "LENGTH('a::len) \<le> 8 * n \<Longrightarrow> roundtrips (fixed_le n) (x :: 'a word)"
  by (simp add: roundtrips_def fixed_le_def length_le_bytes le_word_le_bytes take_bit_word_eq_self)


lemma u32_roundtrips: "roundtrips \<lparr>wr = write_u32, rd = read_u32\<rparr> x"
  by (simp add: roundtrips_def read_write_u32 length_write_u32)

lemma wire_simps:
  "ser_varint wire = \<lparr>wr = WriteVarInt, rd = ReadVarInt\<rparr>"
  "ser_uint256 wire = fixed_le 32"
  "ser_vector_uint256 wire = vector_uint256"
  "ser_CBlockHeaderAndProof wire = \<lparr>wr = write_u32, rd = read_u32\<rparr>"
  "ser_CPartialTransactionProof wire = \<lparr>wr = write_u32, rd = read_u32\<rparr>"
  "ser_CBlockHeaderProof wire = \<lparr>wr = write_u32, rd = read_u32\<rparr>"
  "ser_CReserveTransfer wire = \<lparr>wr = write_u32, rd = read_u32\<rparr>"
  by (simp_all add: wire_def)

lemma small_varint_roundtrips:
  "roundtrips \<lparr>wr = WriteVarInt, rd = ReadVarInt\<rparr> 0"
  "roundtrips \<lparr>wr = WriteVarInt, rd = ReadVarInt\<rparr> 1"
  "roundtrips \<lparr>wr = WriteVarInt, rd = ReadVarInt\<rparr> 2"
  "roundtrips \<lparr>wr = WriteVarInt, rd = ReadVarInt\<rparr> 3"
  "roundtrips \<lparr>wr = WriteVarInt, rd = ReadVarInt\<rparr> 4"
  "roundtrips \<lparr>wr = WriteVarInt, rd = ReadVarInt\<rparr> 8"
  by (simp_all add: roundtrips_def WriteVarInt_def ReadVarInt_def)

lemma read_uint256s_1:
  "read_uint256s 1 s = (if length s < 32 then (Inl ios_base_failure, 0) else (Inr [le_word (take 32 s)], 32))"
  by (simp add: One_nat_def del: le_word.simps)

lemma one_hash_roundtrips: "roundtrips vector_uint256 [x]"
  using le_word_le_bytes [of 32 x]
  by (simp add: roundtrips_def vector_uint256_def WriteCompactSize_def ReadCompactSize_def MAX_SIZE_def
      read_uint256s_1 length_le_bytes take_bit_word_eq_self del: le_word.simps)

lemma read_objects_numeral:
  "read_objects fuel S (numeral k) s objs = read_objects fuel S (Suc (pred_numeral k)) s objs"
  by (simp add: numeral_eq_Suc)

lemma read_objects_1:
  "read_objects fuel S 1 s objs = read_objects fuel S (Suc 0) s objs"
  by simp

lemmas decode_eval = SerializationOp_read.simps read_object.simps read_container_object.simps
  read_objects_numeral wire_simps read_u32_def read_u16_def ReadVarInt_def
  fixed_le_def new_object_def CHAINOBJ_defs DeleteOpRetObjects_def

lemma le_bytes_numeral:
  "le_bytes (numeral k) w = ucast w # le_bytes (pred_numeral k) (drop_bit 8 w)"
  by (simp add: numeral_eq_Suc)

lemmas encode_eval = CHAINOBJ_defs CChainObject_Serialize_def write_u16_def write_u32_def
  wire_simps WriteVarInt_def fixed_le_def le_bytes_numeral

lemma element_raises_sets_error:
  "element_raises fuel S n s \<Longrightarrow> \<exists>objs' j. read_objects fuel S n s objs = Some ((True, objs'), j)"
proof (induction n arbitrary: s objs)
  case 0
  then show ?case by simp
next
  case (Suc n)
  show ?case
  proof (cases "read_object fuel S s")
    case None
    with Suc.prems show ?thesis by simp
  next
    case (Some res)
    obtain r k where res: "res = (r, k)" by (cases res)
    show ?thesis
    proof (cases r)
      case (Inl e)
      with Some res show ?thesis by simp
    next
      case (Inr pobj)
      with Suc.prems Some res have "element_raises fuel S n (drop k s)" by simp
      from Suc.IH [OF this] obtain objs' j where
        "read_objects fuel S n (drop k s) (case pobj of None \<Rightarrow> objs | Some obj \<Rightarrow> objs @ [obj]) =
           Some ((True, objs'), j)"
        by blast
      with Some res Inr show ?thesis by simp
    qed
  qed
qed

section \<open>The fuel is only a bound\<close>

text \<open>
  A result that the reader reaches with some fuel is its result with any more fuel: the
  fuel decides whether the model reaches a result, never which one.
\<close>

lemma fuel_mono_all:
  "\<forall>r f'. SerializationOp_read fuel (S :: ('h, 't, 'r, 'x) serializers) objs0 s = Some r \<longrightarrow> fuel \<le> f' \<longrightarrow> SerializationOp_read f' S objs0 s = Some r"
  "\<forall>r f'. read_objects fuel2 (S2 :: ('h, 't, 'r, 'x) serializers) n s2 objs = Some r \<longrightarrow> fuel2 \<le> f' \<longrightarrow> read_objects f' S2 n s2 objs = Some r"
  "\<forall>r f'. read_object fuel3 (S3 :: ('h, 't, 'r, 'x) serializers) s3 = Some r \<longrightarrow> fuel3 \<le> f' \<longrightarrow> read_object f' S3 s3 = Some r"
  "\<forall>r f'. read_container_object fuel4 (S4 :: ('h, 't, 'r, 'x) serializers) t s4 = Some r \<longrightarrow> fuel4 \<le> f' \<longrightarrow> read_container_object f' S4 t s4 = Some r"
  "\<forall>r f'. CCrossChainProof_assign fuel5 (S5 :: ('h, 't, 'r, 'x) serializers) self operand = Some r \<longrightarrow> fuel5 \<le> f' \<longrightarrow> CCrossChainProof_assign f' S5 self operand = Some r"
proof (induction fuel S objs0 s and fuel2 S2 n s2 objs and fuel3 S3 s3 and fuel4 S4 t s4 and fuel5 S5 self operand
    rule: SerializationOp_read_read_objects_read_object_read_container_object_CCrossChainProof_assign.induct)
  case (1 fuel S objs0 s)
  show ?case
  proof (intro allI impI)
    fix r f'
    assume a: "SerializationOp_read fuel S objs0 s = Some r" and le: "fuel \<le> f'"
    obtain x k where u: "read_u32 s = (x, k)" by (cases "read_u32 s")
    show "SerializationOp_read f' S objs0 s = Some r"
    proof (cases x)
      case (Inl e)
      with a u show ?thesis by (simp add: SerializationOp_read.simps)
    next
      case (Inr v)
      obtain y m where w: "rd (ser_varint S) (drop k s) = (y, m)" by (cases "rd (ser_varint S) (drop k s)")
      show ?thesis
      proof (cases y)
        case (Inl e)
        with a u Inr w show ?thesis by (simp add: SerializationOp_read.simps)
      next
        case (Inr proofSize)
        note ps = this
        from a u \<open>x = Inr v\<close> w ps obtain q where
          q: "read_objects fuel S (nat (sint proofSize)) (drop m (drop k s)) objs0 = Some q"
          by (auto simp add: SerializationOp_read.simps split: option.splits)
        from "1.IH" [OF u [symmetric] \<open>x = Inr v\<close> w [symmetric] ps] q le
        have "read_objects f' S (nat (sint proofSize)) (drop m (drop k s)) objs0 = Some q"
          by blast
        with a u \<open>x = Inr v\<close> w ps q show ?thesis
          by (simp add: SerializationOp_read.simps)
      qed
    qed
  qed
next
  case (2 fuel S s objs)
  then show ?case by simp
next
  case (3 fuel S n s objs)
  show ?case
  proof (intro allI impI)
    fix r f'
    assume a: "read_objects fuel S (Suc n) s objs = Some r" and le: "fuel \<le> f'"
    then obtain x2 where x2: "read_object fuel S s = Some x2"
      by (auto split: option.splits)
    with "3.IH"(1) le have x2': "read_object f' S s = Some x2" by blast
    obtain x k where xk: "x2 = (x, k)" by (cases x2)
    show "read_objects f' S (Suc n) s objs = Some r"
    proof (cases x)
      case (Inl e)
      with a x2 x2' xk show ?thesis by simp
    next
      case (Inr pobj)
      from a x2 xk Inr obtain q where
        q: "read_objects fuel S n (drop k s) (case pobj of None \<Rightarrow> objs | Some obj \<Rightarrow> objs @ [obj]) = Some q"
        by (auto split: option.splits)
      from "3.IH"(2) [OF x2 xk [symmetric] Inr] q le
      have "read_objects f' S n (drop k s) (case pobj of None \<Rightarrow> objs | Some obj \<Rightarrow> objs @ [obj]) = Some q"
        by blast
      with a x2 x2' xk Inr q show ?thesis by simp
    qed
  qed
next
  case (4 fuel S s)
  show ?case
  proof (intro allI impI)
    fix r f'
    assume a: "read_object fuel S s = Some r" and le: "fuel \<le> f'"
    obtain x k where u: "read_u16 s = (x, k)" by (cases "read_u16 s")
    show "read_object f' S s = Some r"
    proof (cases x)
      case (Inl e)
      with a u show ?thesis by (simp add: read_object.simps)
    next
      case (Inr objType)
      have d: "CHAINOBJ_CROSSCHAINPROOF \<noteq> CHAINOBJ_HEADER" "CHAINOBJ_CROSSCHAINPROOF \<noteq> CHAINOBJ_TRANSACTION_PROOF"
        "CHAINOBJ_CROSSCHAINPROOF \<noteq> CHAINOBJ_PROOF_ROOT" "CHAINOBJ_CROSSCHAINPROOF \<noteq> CHAINOBJ_HEADER_REF"
        "CHAINOBJ_CROSSCHAINPROOF \<noteq> CHAINOBJ_PRIORBLOCKS" "CHAINOBJ_CROSSCHAINPROOF \<noteq> CHAINOBJ_RESERVETRANSFER"
        "CHAINOBJ_COMPOSITEOBJECT \<noteq> CHAINOBJ_HEADER" "CHAINOBJ_COMPOSITEOBJECT \<noteq> CHAINOBJ_TRANSACTION_PROOF"
        "CHAINOBJ_COMPOSITEOBJECT \<noteq> CHAINOBJ_PROOF_ROOT" "CHAINOBJ_COMPOSITEOBJECT \<noteq> CHAINOBJ_HEADER_REF"
        "CHAINOBJ_COMPOSITEOBJECT \<noteq> CHAINOBJ_PRIORBLOCKS" "CHAINOBJ_COMPOSITEOBJECT \<noteq> CHAINOBJ_RESERVETRANSFER"
        "CHAINOBJ_COMPOSITEOBJECT \<noteq> CHAINOBJ_CROSSCHAINPROOF"
        by (simp_all add: CHAINOBJ_defs)
      consider (ccp) "objType = CHAINOBJ_CROSSCHAINPROOF"
        | (comp) "objType = CHAINOBJ_COMPOSITEOBJECT"
        | (other) "objType \<noteq> CHAINOBJ_CROSSCHAINPROOF" "objType \<noteq> CHAINOBJ_COMPOSITEOBJECT"
        by blast
      then show ?thesis
      proof cases
        case ccp
        from a u Inr ccp d obtain q where q: "read_container_object fuel S objType (drop k s) = Some q"
          by (simp add: read_object.simps split: option.splits)
        from ccp d have "objType \<noteq> CHAINOBJ_HEADER" "objType \<noteq> CHAINOBJ_TRANSACTION_PROOF"
          "objType \<noteq> CHAINOBJ_PROOF_ROOT" "objType \<noteq> CHAINOBJ_HEADER_REF" "objType \<noteq> CHAINOBJ_PRIORBLOCKS"
          "objType \<noteq> CHAINOBJ_RESERVETRANSFER"
          by simp_all
        from "4.IH"(1) [OF u [symmetric] Inr this ccp] q le
        have "read_container_object f' S objType (drop k s) = Some q" by blast
        with a u Inr ccp d q show ?thesis by (simp add: read_object.simps)
      next
        case comp
        from a u Inr comp d obtain q where
          q: "read_container_object fuel S CHAINOBJ_COMPOSITEOBJECT (drop k s) = Some q"
          by (simp add: read_object.simps split: option.splits)
        from comp d have "objType \<noteq> CHAINOBJ_HEADER" "objType \<noteq> CHAINOBJ_TRANSACTION_PROOF"
          "objType \<noteq> CHAINOBJ_PROOF_ROOT" "objType \<noteq> CHAINOBJ_HEADER_REF" "objType \<noteq> CHAINOBJ_PRIORBLOCKS"
          "objType \<noteq> CHAINOBJ_RESERVETRANSFER" "objType \<noteq> CHAINOBJ_CROSSCHAINPROOF"
          by simp_all
        from "4.IH"(2) [OF u [symmetric] Inr this comp] q le
        have "read_container_object f' S CHAINOBJ_COMPOSITEOBJECT (drop k s) = Some q" by blast
        with a u Inr comp d q show ?thesis by (simp add: read_object.simps)
      next
        case other
        with u Inr have "read_object f' S s = read_object fuel S s"
          by (simp add: read_object.simps)
        with a show ?thesis by simp
      qed
    qed
  qed
next
  case (5 fuel S objType s)
  show ?case
  proof (intro allI impI)
    fix r f'
    assume a: "read_container_object fuel S objType s = Some r" and le: "fuel \<le> f'"
    then obtain x2 where x2: "SerializationOp_read fuel S [] s = Some x2"
      by (auto simp add: read_container_object.simps split: option.splits)
    with "5.IH"(1) le have x2': "SerializationOp_read f' S [] s = Some x2" by blast
    obtain x m where xm: "x2 = (x, m)" by (cases x2)
    show "read_container_object f' S objType s = Some r"
    proof (cases x)
      case (Inl e)
      with a x2 x2' xm show ?thesis by (simp add: read_container_object.simps)
    next
      case (Inr obj)
      from a x2 xm Inr obtain q where
        q: "CCrossChainProof_assign fuel S (CCrossChainProof VERSION_CURRENT []) obj = Some q"
        by (auto simp add: read_container_object.simps split: option.splits)
      from "5.IH"(2) [OF x2 xm [symmetric] Inr] q le
      have "CCrossChainProof_assign f' S (CCrossChainProof VERSION_CURRENT []) obj = Some q" by blast
      with a x2 x2' xm Inr q show ?thesis by (simp add: read_container_object.simps)
    qed
  qed
next
  case (6 S this operand)
  then show ?case by simp
next
  case (7 fuel S this operand)
  show ?case
  proof (intro allI impI)
    fix r f'
    assume a: "CCrossChainProof_assign (Suc fuel) S this operand = Some r" and le: "Suc fuel \<le> f'"
    then obtain g where g: "f' = Suc g" and le': "fuel \<le> g"
      by (cases f') auto
    from a obtain bs where bs: "Serialize S operand = Some bs"
      by (auto split: option.splits)
    with a obtain q where q: "SerializationOp_read fuel S (DeleteOpRetObjects (chainObjects this)) bs = Some q"
      by (auto split: option.splits)
    from "7.IH" [OF bs] q le'
    have "SerializationOp_read g S (DeleteOpRetObjects (chainObjects this)) bs = Some q" by blast
    with a bs q show "CCrossChainProof_assign f' S this operand = Some r"
      by (simp add: g)
  qed
qed

section \<open>The proof container\<close>

text \<open>
  C1. \<^verbatim>\<open>IsValid()\<close> is claimed to hold exactly for the versions in
  [\<^verbatim>\<open>VERSION_FIRST\<close>, \<^verbatim>\<open>VERSION_LAST\<close>] and to be false for \<^verbatim>\<open>VERSION_INVALID\<close>. The code
  joins the two comparisons with \<^verbatim>\<open>||\<close>: \<^verbatim>\<open>IsValid()\<close> holds for every container, also
  for one of version \<^verbatim>\<open>VERSION_INVALID\<close>, which is outside the supported range.
\<close>

theorem IsValid_accepts_VERSION_INVALID:
  "IsValid c \<and> IsValid (CCrossChainProof VERSION_INVALID objs) \<and> \<not> version_supported VERSION_INVALID"
  by (auto simp add: IsValid_def version_supported_def VERSION_INVALID_def VERSION_FIRST_def
      VERSION_LAST_def)

text \<open>
  C2, as amended. For every supported tag and every object whose tag carries the payload
  class of the decode branch of that tag (a container with no objects and containers
  nested in containers included, when the objects they hold are again such objects and
  each container holds fewer than \<open>2^31\<close> of them), reading the bytes written for the
  object gives an object equal to it: same tag, same payload, same order of elements.
  The payload values and counts are those that round-trip through the external
  serializers; the reader is given fuel for the nesting of the container.
\<close>

theorem roundtrip:
  "(serializable_proof S c \<and> nesting c \<le> fuel \<longrightarrow>
      (\<exists>bs. Serialize S c = Some bs \<and>
         SerializationOp_read fuel S [] bs = Some (Inr c, length bs))) \<and>
   (serializable_object S obj \<and> nesting_object obj \<le> fuel \<longrightarrow>
      (\<exists>flag bs. DehydrateChainObject S obj = Some (flag, bs) \<and>
         read_object fuel S bs = Some (Inr (Some obj), length bs)))"
proof (intro conjI impI)
  assume a: "serializable_proof S c \<and> nesting c \<le> fuel"
  then obtain bs where bs: "Serialize S c = Some bs" and rb: "reads_back S c bs"
    using roundtrip_all(1) [of S c] by auto
  from rb a have "SerializationOp_read fuel S [] (bs @ []) =
      Some (Inr (CCrossChainProof (version c) ([] @ chainObjects c)), length bs)"
    unfolding reads_back_def by blast
  with bs show "\<exists>bs. Serialize S c = Some bs \<and>
      SerializationOp_read fuel S [] bs = Some (Inr c, length bs)"
    by simp
next
  assume a: "serializable_object S obj \<and> nesting_object obj \<le> fuel"
  then obtain bs where bs: "DehydrateChainObject S obj = Some (True, bs)"
    and rd: "\<And>fuel rest. nesting_object obj \<le> fuel \<Longrightarrow>
       read_object fuel S (bs @ rest) = Some (Inr (Some obj), length bs)"
    using roundtrip_all(4) [of S obj] by auto
  from rd [of fuel "[]"] a have "read_object fuel S bs = Some (Inr (Some obj), length bs)"
    by simp
  with bs show "\<exists>flag bs. DehydrateChainObject S obj = Some (flag, bs) \<and>
      read_object fuel S bs = Some (Inr (Some obj), length bs)"
    by blast
qed

text \<open>
  The round trip on a container that holds an object of each of the eight tags, among
  them an empty container and a container in a container.
\<close>

theorem roundtrip_witness:
  "serializable_proof wire
     (CCrossChainProof 1
        [ChainObject CHAINOBJ_HEADER (HeaderAndProof 7),
         ChainObject CHAINOBJ_HEADER_REF (HeaderProof 6),
         ChainObject CHAINOBJ_TRANSACTION_PROOF (PartialTransactionProof 5),
         ChainObject CHAINOBJ_PROOF_ROOT (ProofRoot 258),
         ChainObject CHAINOBJ_PRIORBLOCKS (PriorBlocks \<lparr>priorBlocks = [5], pastBlockType = 1\<rparr>),
         ChainObject CHAINOBJ_RESERVETRANSFER (ReserveTransfer 4),
         ChainObject CHAINOBJ_CROSSCHAINPROOF (CrossChainProof (CCrossChainProof 1 [])),
         ChainObject CHAINOBJ_COMPOSITEOBJECT
           (CrossChainProof (CCrossChainProof 1 [ChainObject CHAINOBJ_PROOF_ROOT (ProofRoot 3)]))]) \<and>
   (\<exists>bs. Serialize wire
     (CCrossChainProof 1
        [ChainObject CHAINOBJ_HEADER (HeaderAndProof 7),
         ChainObject CHAINOBJ_HEADER_REF (HeaderProof 6),
         ChainObject CHAINOBJ_TRANSACTION_PROOF (PartialTransactionProof 5),
         ChainObject CHAINOBJ_PROOF_ROOT (ProofRoot 258),
         ChainObject CHAINOBJ_PRIORBLOCKS (PriorBlocks \<lparr>priorBlocks = [5], pastBlockType = 1\<rparr>),
         ChainObject CHAINOBJ_RESERVETRANSFER (ReserveTransfer 4),
         ChainObject CHAINOBJ_CROSSCHAINPROOF (CrossChainProof (CCrossChainProof 1 [])),
         ChainObject CHAINOBJ_COMPOSITEOBJECT
           (CrossChainProof (CCrossChainProof 1 [ChainObject CHAINOBJ_PROOF_ROOT (ProofRoot 3)]))]) = Some bs \<and>
      SerializationOp_read 1 wire [] bs = Some (Inr
     (CCrossChainProof 1
        [ChainObject CHAINOBJ_HEADER (HeaderAndProof 7),
         ChainObject CHAINOBJ_HEADER_REF (HeaderProof 6),
         ChainObject CHAINOBJ_TRANSACTION_PROOF (PartialTransactionProof 5),
         ChainObject CHAINOBJ_PROOF_ROOT (ProofRoot 258),
         ChainObject CHAINOBJ_PRIORBLOCKS (PriorBlocks \<lparr>priorBlocks = [5], pastBlockType = 1\<rparr>),
         ChainObject CHAINOBJ_RESERVETRANSFER (ReserveTransfer 4),
         ChainObject CHAINOBJ_CROSSCHAINPROOF (CrossChainProof (CCrossChainProof 1 [])),
         ChainObject CHAINOBJ_COMPOSITEOBJECT
           (CrossChainProof (CCrossChainProof 1 [ChainObject CHAINOBJ_PROOF_ROOT (ProofRoot 3)]))]), length bs))"
proof -
  let ?c = "CCrossChainProof 1
        [ChainObject CHAINOBJ_HEADER (HeaderAndProof 7),
         ChainObject CHAINOBJ_HEADER_REF (HeaderProof 6),
         ChainObject CHAINOBJ_TRANSACTION_PROOF (PartialTransactionProof 5),
         ChainObject CHAINOBJ_PROOF_ROOT (ProofRoot 258),
         ChainObject CHAINOBJ_PRIORBLOCKS (PriorBlocks \<lparr>priorBlocks = [5], pastBlockType = 1\<rparr>),
         ChainObject CHAINOBJ_RESERVETRANSFER (ReserveTransfer 4),
         ChainObject CHAINOBJ_CROSSCHAINPROOF (CrossChainProof (CCrossChainProof 1 [])),
         ChainObject CHAINOBJ_COMPOSITEOBJECT
           (CrossChainProof (CCrossChainProof 1 [ChainObject CHAINOBJ_PROOF_ROOT (ProofRoot 3)]))]
       :: (32 word, 32 word, 32 word, 32 word) CCrossChainProof"
  have ok: "serializable_proof wire ?c"
    by (simp add: wire_simps small_varint_roundtrips fixed_le_roundtrips u32_roundtrips
        one_hash_roundtrips)
  have n: "nesting ?c \<le> 1"
    by simp
  from roundtrip [of wire ?c 1] ok n show ?thesis
    by blast
qed

text \<open>
  C2 as stated fails on a container that can be constructed from a vector of objects:
  one that holds a default-constructed \<^verbatim>\<open>CBaseChainObject\<close> (tag \<^verbatim>\<open>CHAINOBJ_INVALID\<close>) and a
  \<^verbatim>\<open>CHAINOBJ_PROOF_ROOT\<close> object. The writer counts two objects and writes one, since
  \<^verbatim>\<open>DehydrateChainObject\<close> writes nothing for the tag it does not know; the reader then
  misses the second element and gives back a container with no objects. So for the
  object of tag \<^verbatim>\<open>CHAINOBJ_CROSSCHAINPROOF\<close> whose payload is that container: it comes back
  holding an empty container.
\<close>

theorem unknown_tag_object_breaks_roundtrip:
  "Serialize wire
     (CCrossChainProof 1
        [ChainObject CHAINOBJ_INVALID NoObject, ChainObject CHAINOBJ_PROOF_ROOT (ProofRoot 7)]) =
     Some [1, 0, 0, 0, 2, 4, 0,
           7, 0, 0, 0, 0, 0, 0, 0, 0, 0, 0, 0, 0, 0, 0, 0, 0, 0, 0, 0, 0, 0, 0, 0, 0, 0, 0, 0, 0, 0, 0, 0] \<and>
   SerializationOp_read 1 wire []
     [1, 0, 0, 0, 2, 4, 0,
      7, 0, 0, 0, 0, 0, 0, 0, 0, 0, 0, 0, 0, 0, 0, 0, 0, 0, 0, 0, 0, 0, 0, 0, 0, 0, 0, 0, 0, 0, 0, 0] =
     Some (Inr (CCrossChainProof 1 []), 39) \<and>
   DehydrateChainObject wire
     (ChainObject CHAINOBJ_CROSSCHAINPROOF (CrossChainProof (CCrossChainProof 1
        [ChainObject CHAINOBJ_INVALID NoObject, ChainObject CHAINOBJ_PROOF_ROOT (ProofRoot 7)]))) =
     Some (True, [8, 0, 1, 0, 0, 0, 2, 4, 0,
           7, 0, 0, 0, 0, 0, 0, 0, 0, 0, 0, 0, 0, 0, 0, 0, 0, 0, 0, 0, 0, 0, 0, 0, 0, 0, 0, 0, 0, 0, 0, 0]) \<and>
   read_object 1 wire
     [8, 0, 1, 0, 0, 0, 2, 4, 0,
      7, 0, 0, 0, 0, 0, 0, 0, 0, 0, 0, 0, 0, 0, 0, 0, 0, 0, 0, 0, 0, 0, 0, 0, 0, 0, 0, 0, 0, 0, 0, 0] =
     Some (Inr (Some (ChainObject CHAINOBJ_CROSSCHAINPROOF (CrossChainProof (CCrossChainProof 1 [])))), 41)"
proof (intro conjI)
  show "Serialize wire
     (CCrossChainProof 1
        [ChainObject CHAINOBJ_INVALID NoObject, ChainObject CHAINOBJ_PROOF_ROOT (ProofRoot 7)]) =
     Some [1, 0, 0, 0, 2, 4, 0,
           7, 0, 0, 0, 0, 0, 0, 0, 0, 0, 0, 0, 0, 0, 0, 0, 0, 0, 0, 0, 0, 0, 0, 0, 0, 0, 0, 0, 0, 0, 0, 0]"
    by (simp add: encode_eval)
  show "SerializationOp_read 1 wire []
     [1, 0, 0, 0, 2, 4, 0,
      7, 0, 0, 0, 0, 0, 0, 0, 0, 0, 0, 0, 0, 0, 0, 0, 0, 0, 0, 0, 0, 0, 0, 0, 0, 0, 0, 0, 0, 0, 0, 0] =
     Some (Inr (CCrossChainProof 1 []), 39)"
    by (simp add: decode_eval)
  show "DehydrateChainObject wire
     (ChainObject CHAINOBJ_CROSSCHAINPROOF (CrossChainProof (CCrossChainProof 1
        [ChainObject CHAINOBJ_INVALID NoObject, ChainObject CHAINOBJ_PROOF_ROOT (ProofRoot 7)]))) =
     Some (True, [8, 0, 1, 0, 0, 0, 2, 4, 0,
           7, 0, 0, 0, 0, 0, 0, 0, 0, 0, 0, 0, 0, 0, 0, 0, 0, 0, 0, 0, 0, 0, 0, 0, 0, 0, 0, 0, 0, 0, 0, 0])"
    by (simp add: encode_eval)
  show "read_object 1 wire
     [8, 0, 1, 0, 0, 0, 2, 4, 0,
      7, 0, 0, 0, 0, 0, 0, 0, 0, 0, 0, 0, 0, 0, 0, 0, 0, 0, 0, 0, 0, 0, 0, 0, 0, 0, 0, 0, 0, 0, 0, 0] =
     Some (Inr (Some (ChainObject CHAINOBJ_CROSSCHAINPROOF (CrossChainProof (CCrossChainProof 1 [])))), 41)"
    by (simp add: decode_eval One_nat_def VERSION_CURRENT_def encode_eval)
qed

text \<open>
  C3. The tag stored by \<^verbatim>\<open>operator<<\<close> is claimed to be the tag whose decode branch reads
  the payload type appended. For the two header classes the code stores the tags the
  other way round: a \<^verbatim>\<open>CBlockHeaderAndProof\<close> is stored under \<^verbatim>\<open>CHAINOBJ_HEADER_REF\<close>, whose
  decode branch reads a \<^verbatim>\<open>CBlockHeaderProof\<close>, and a \<^verbatim>\<open>CBlockHeaderProof\<close> under
  \<^verbatim>\<open>CHAINOBJ_HEADER\<close>, whose decode branch reads a \<^verbatim>\<open>CBlockHeaderAndProof\<close>; writing either
  object casts it to the class it is not.
\<close>

theorem append_header_tags_swapped:
  "chainObjects (append_CBlockHeaderAndProof c h) =
     chainObjects c @ [ChainObject CHAINOBJ_HEADER_REF (HeaderAndProof h)] \<and>
   chainObjects (append_CBlockHeaderProof c r) =
     chainObjects c @ [ChainObject CHAINOBJ_HEADER (HeaderProof r)] \<and>
   read_object fuel S (write_u16 CHAINOBJ_HEADER_REF @ bs) =
     (case new_object CHAINOBJ_HEADER_REF HeaderProof (rd (ser_CBlockHeaderProof S) bs) of
        (res, m) \<Rightarrow> Some (res, 2 + m)) \<and>
   read_object fuel S (write_u16 CHAINOBJ_HEADER @ bs) =
     (case new_object CHAINOBJ_HEADER HeaderAndProof (rd (ser_CBlockHeaderAndProof S) bs) of
        (res, m) \<Rightarrow> Some (res, 2 + m)) \<and>
   DehydrateChainObject S (ChainObject CHAINOBJ_HEADER_REF (HeaderAndProof h)) = None \<and>
   DehydrateChainObject S (ChainObject CHAINOBJ_HEADER (HeaderProof r)) = None"
  by (simp add: append_CBlockHeaderAndProof_def append_CBlockHeaderProof_def push_back_def
      read_object_tagged CHAINOBJ_defs split: prod.splits)

text \<open>
  C4, as amended. When the decoding of an element throws, the container decode discards
  every element, those the container held before included, so that the container holds
  no object, and it returns normally: the exception is caught and logged, and no error
  reaches the caller.
\<close>

theorem element_failure_empties_container:
  assumes "read_u32 s = (Inr v, k)"
    and "rd (ser_varint S) (drop k s) = (Inr proofSize, m)"
    and "element_raises fuel S (nat (sint proofSize)) (drop m (drop k s))"
  shows "\<exists>j. SerializationOp_read fuel S objs0 s = Some (Inr (CCrossChainProof v []), k + m + j)"
proof -
  from element_raises_sets_error [OF assms(3)] obtain objs' j where
    "read_objects fuel S (nat (sint proofSize)) (drop m (drop k s)) objs0 = Some ((True, objs'), j)"
    by blast
  with assms(1,2) show ?thesis
    by (simp add: SerializationOp_read.simps DeleteOpRetObjects_def)
qed

text \<open>
  C4 as stated fails: the stream holds version 1, count 1 and a \<^verbatim>\<open>CHAINOBJ_PROOF_ROOT\<close>
  element cut off after three bytes. Decoding the element throws, and the container
  decode returns a container with no objects, not an error.
\<close>

theorem element_failure_returns_normally:
  "read_object 0 wire [4, 0, 9, 9, 9] = Some (Inl ios_base_failure, 2) \<and>
   SerializationOp_read 0 wire [] [1, 0, 0, 0, 1, 4, 0, 9, 9, 9] =
     Some (Inr (CCrossChainProof 1 []), 7)"
  by (simp add: decode_eval)

text \<open>The amended C4 on a stream whose first element is cut off, read into a container that holds an object.\<close>

theorem element_failure_empties_container_witness:
  "read_u32 [1, 0, 0, 0, 2, 4, 0, 9, 9, 9] = (Inr 1, 4) \<and>
   rd (ser_varint wire) (drop 4 [1, 0, 0, 0, 2, 4, 0, 9, 9, 9]) = (Inr 2, 1) \<and>
   element_raises 0 wire (nat (sint (2 :: 32 word))) (drop 1 (drop 4 [1, 0, 0, 0, 2, 4, 0, 9, 9, 9])) \<and>
   (\<exists>j. SerializationOp_read 0 wire [ChainObject CHAINOBJ_PROOF_ROOT (ProofRoot 5)]
           [1, 0, 0, 0, 2, 4, 0, 9, 9, 9] =
         Some (Inr (CCrossChainProof 1 []), 4 + 1 + j))"
proof -
  have a: "read_u32 [1, 0, 0, 0, 2, 4, 0, 9, 9, 9] = (Inr 1, 4)"
    by (simp add: read_u32_def)
  have b: "rd (ser_varint wire) (drop 4 [1, 0, 0, 0, 2, 4, 0, 9, 9, 9]) = (Inr 2, 1)"
    by (simp add: wire_simps ReadVarInt_def)
  have two: "nat (sint (2 :: 32 word)) = Suc (Suc 0)"
    by simp
  have c: "element_raises 0 wire (nat (sint (2 :: 32 word)))
      (drop 1 (drop 4 [1, 0, 0, 0, 2, 4, 0, 9, 9, 9]))"
    unfolding two by (simp add: decode_eval)
  from element_failure_empties_container [OF a b c] a b c show ?thesis
    by blast
qed

text \<open>
  C5, as amended. An element whose tag is not a known tag yields no object and no error:
  the decode takes the two bytes of the tag, appends nothing, leaves the error flag
  unset and decodes the next element from the position right after the tag.
\<close>

theorem unknown_tag_is_skipped:
  assumes "read_u16 s = (Inr objType, k)" and "\<not> known_tag objType"
  shows "read_object fuel S s = Some (Inr None, 2) \<and>
     read_objects fuel S (Suc n) s objs =
       (case read_objects fuel S n (drop 2 s) objs of
          None \<Rightarrow> None
        | Some (r, j) \<Rightarrow> Some (r, 2 + j))"
proof -
  from assms(1) have k: "k = 2"
    by (auto simp add: read_u16_def split: if_splits)
  from assms have ro: "read_object fuel S s = Some (Inr None, 2)"
    by (simp add: read_object.simps known_tag_def k)
  then show ?thesis
    by simp
qed

text \<open>
  C5 as stated fails: the stream holds version 1, count 2, an element of the unknown tag
  99 and a \<^verbatim>\<open>CHAINOBJ_PROOF_ROOT\<close> element. The decode returns a container with the second
  element only, and no error.
\<close>

theorem unknown_tag_dropped_silently:
  "\<not> known_tag 99 \<and>
   SerializationOp_read 0 wire []
     [1, 0, 0, 0, 2, 99, 0, 4, 0,
      7, 0, 0, 0, 0, 0, 0, 0, 0, 0, 0, 0, 0, 0, 0, 0, 0, 0, 0, 0, 0, 0, 0, 0, 0, 0, 0, 0, 0, 0, 0, 0] =
     Some (Inr (CCrossChainProof 1 [ChainObject CHAINOBJ_PROOF_ROOT (ProofRoot 7)]), 41)"
  by (simp add: known_tag_def decode_eval)

text \<open>The amended C5 on a stream that starts with the unknown tag 99.\<close>

theorem unknown_tag_is_skipped_witness:
  "read_u16 [99, 0, 4, 0, 9, 9, 9] = (Inr 99, 2) \<and> \<not> known_tag 99 \<and>
   read_object 0 wire [99, 0, 4, 0, 9, 9, 9] = Some (Inr None, 2) \<and>
   read_objects 0 wire (Suc 1) [99, 0, 4, 0, 9, 9, 9] [] =
     (case read_objects 0 wire 1 (drop 2 [99, 0, 4, 0, 9, 9, 9]) [] of
        None \<Rightarrow> None
      | Some (r, j) \<Rightarrow> Some (r, 2 + j))"
proof -
  have a: "read_u16 [99, 0, 4, 0, 9, 9, 9] = (Inr 99, 2)"
    by (simp add: read_u16_def)
  have b: "\<not> known_tag 99"
    by (simp add: known_tag_def CHAINOBJ_defs)
  from unknown_tag_is_skipped [OF a b, of 0 wire 1 "[]"] a b show ?thesis
    by blast
qed

text \<open>
  C6. Copying a container, by the copy constructor or by assignment, and writing the
  copy gives the bytes that writing the original gives. The containers are the
  decodable ones, those for which the round trip of C2 is proved; the fuel covers the
  nesting and the assignment itself.
\<close>

theorem copy_fidelity:
  assumes "serializable_proof S c" and "nesting c < fuel"
  shows "\<exists>bs. Serialize S c = Some bs \<and>
     (\<exists>c'. CCrossChainProof_copy fuel S c = Some (Inr c') \<and> Serialize S c' = Some bs) \<and>
     (\<exists>c'. CCrossChainProof_assign fuel S self c = Some (Inr c') \<and> Serialize S c' = Some bs)"
proof -
  from assms(1) obtain bs where bs: "Serialize S c = Some bs" and rb: "reads_back S c bs"
    using roundtrip_all(1) [of S c] by auto
  from rb assms(2) have "SerializationOp_read fuel S [] (bs @ []) =
      Some (Inr (CCrossChainProof (version c) ([] @ chainObjects c)), length bs)"
    unfolding reads_back_def by (meson less_imp_le)
  then have copy: "CCrossChainProof_copy fuel S c = Some (Inr c)"
    by (simp add: CCrossChainProof_copy_def bs)
  have assign: "CCrossChainProof_assign fuel S self c = Some (Inr c)"
    by (rule assign_reads_back [OF bs rb assms(2)])
  from bs copy assign show ?thesis
    by simp
qed

text \<open>The copies of a container that holds a container, the assignment made to a container that holds an object.\<close>

theorem copy_fidelity_witness:
  "serializable_proof wire
     (CCrossChainProof 1
        [ChainObject CHAINOBJ_RESERVETRANSFER (ReserveTransfer 9),
         ChainObject CHAINOBJ_CROSSCHAINPROOF
           (CrossChainProof (CCrossChainProof 1 [ChainObject CHAINOBJ_PROOF_ROOT (ProofRoot 3)]))]) \<and>
   nesting (CCrossChainProof 1
        [ChainObject CHAINOBJ_RESERVETRANSFER (ReserveTransfer (9 :: 32 word)),
         ChainObject CHAINOBJ_CROSSCHAINPROOF
           (CrossChainProof (CCrossChainProof 1 [ChainObject CHAINOBJ_PROOF_ROOT (ProofRoot 3)]))]) < 2 \<and>
   (\<exists>bs. Serialize wire
     (CCrossChainProof 1
        [ChainObject CHAINOBJ_RESERVETRANSFER (ReserveTransfer 9),
         ChainObject CHAINOBJ_CROSSCHAINPROOF
           (CrossChainProof (CCrossChainProof 1 [ChainObject CHAINOBJ_PROOF_ROOT (ProofRoot 3)]))]) = Some bs \<and>
     (\<exists>c'. CCrossChainProof_copy 2 wire
       (CCrossChainProof 1
        [ChainObject CHAINOBJ_RESERVETRANSFER (ReserveTransfer 9),
         ChainObject CHAINOBJ_CROSSCHAINPROOF
           (CrossChainProof (CCrossChainProof 1 [ChainObject CHAINOBJ_PROOF_ROOT (ProofRoot 3)]))]) = Some (Inr c') \<and>
        Serialize wire c' = Some bs) \<and>
     (\<exists>c'. CCrossChainProof_assign 2 wire
       (CCrossChainProof 1 [ChainObject CHAINOBJ_PROOF_ROOT (ProofRoot 8)])
       (CCrossChainProof 1
        [ChainObject CHAINOBJ_RESERVETRANSFER (ReserveTransfer 9),
         ChainObject CHAINOBJ_CROSSCHAINPROOF
           (CrossChainProof (CCrossChainProof 1 [ChainObject CHAINOBJ_PROOF_ROOT (ProofRoot 3)]))]) = Some (Inr c') \<and>
        Serialize wire c' = Some bs))"
proof -
  let ?c = "CCrossChainProof 1
        [ChainObject CHAINOBJ_RESERVETRANSFER (ReserveTransfer 9),
         ChainObject CHAINOBJ_CROSSCHAINPROOF
           (CrossChainProof (CCrossChainProof 1 [ChainObject CHAINOBJ_PROOF_ROOT (ProofRoot 3)]))]
       :: (32 word, 32 word, 32 word, 32 word) CCrossChainProof"
  have ok: "serializable_proof wire ?c"
    by (simp add: wire_simps small_varint_roundtrips fixed_le_roundtrips u32_roundtrips)
  have n: "nesting ?c < 2"
    by simp
  from copy_fidelity [OF ok n, of "CCrossChainProof 1 [ChainObject CHAINOBJ_PROOF_ROOT (ProofRoot 8)]"]
  show ?thesis
    using ok n by simp
qed

text \<open>
  C7. A container written under \<^verbatim>\<open>CHAINOBJ_COMPOSITEOBJECT\<close> (as \<^verbatim>\<open>CCompositeChainObject\<close>) and
  the same container written under \<^verbatim>\<open>CHAINOBJ_CROSSCHAINPROOF\<close> give the same bytes after
  the two bytes of the tag: in both cases the bytes that \<^verbatim>\<open>CCrossChainProof\<close> writes for it.
\<close>

theorem composite_equivalence:
  "CCompositeChainObject_Serialize S c = Serialize S c \<and>
   DehydrateChainObject S (ChainObject CHAINOBJ_COMPOSITEOBJECT (CrossChainProof c)) =
     map_option (\<lambda>payload. (True, write_u16 CHAINOBJ_COMPOSITEOBJECT @ payload)) (Serialize S c) \<and>
   DehydrateChainObject S (ChainObject CHAINOBJ_CROSSCHAINPROOF (CrossChainProof c)) =
     map_option (\<lambda>payload. (True, write_u16 CHAINOBJ_CROSSCHAINPROOF @ payload)) (Serialize S c) \<and>
   length (write_u16 CHAINOBJ_COMPOSITEOBJECT) = 2 \<and> length (write_u16 CHAINOBJ_CROSSCHAINPROOF) = 2"
  by (cases "Serialize S c")
    (simp_all add: CHAINOBJ_defs CChainObject_Serialize_def length_write_u16)

section \<open>The registry of merge-mined chains\<close>

text \<open>
  C8. \<^verbatim>\<open>LowestTarget()\<close> returns the smallest target of the target index, and zero when
  the index is empty; with the targets T1 < T2 < T3 registered it returns T1, and T2
  once the chain that owns T1 is removed.
\<close>

theorem LowestTarget_is_smallest:
  "(std_map_ok (mergeMinedTargets r) \<longrightarrow>
      (mergeMinedTargets r = [] \<longrightarrow> LowestTarget r = 0) \<and>
      (mergeMinedTargets r \<noteq> [] \<longrightarrow>
         LowestTarget r \<in> fst ` set (mergeMinedTargets r) \<and>
         (\<forall>t \<in> fst ` set (mergeMinedTargets r). LowestTarget r \<le> t))) \<and>
   (mergeMinedTargets r = [(T1, c1), (T2, c2), (T3, c3)] \<and> T1 < T2 \<and> T2 < T3 \<and>
    c1 \<in> fst ` set (mergeMinedChains r) \<and> c2 \<noteq> c1 \<longrightarrow>
      LowestTarget r = T1 \<and> LowestTarget (RemoveMergedBlock c1 r) = T2)"
proof (intro conjI impI)
  assume "mergeMinedTargets r = []"
  then show "LowestTarget r = 0"
    by (simp add: LowestTarget_def)
next
  assume ok: "std_map_ok (mergeMinedTargets r)" and ne: "mergeMinedTargets r \<noteq> []"
  then obtain t c rest where m: "mergeMinedTargets r = (t, c) # rest"
    by (cases "mergeMinedTargets r") auto
  then show "LowestTarget r \<in> fst ` set (mergeMinedTargets r)"
    by (simp add: LowestTarget_def)
  from ok m have "\<forall>t' \<in> set (map fst rest). t < t'"
    by (simp add: std_map_ok_def)
  with m show "\<forall>t \<in> fst ` set (mergeMinedTargets r). LowestTarget r \<le> t"
    by (auto simp add: LowestTarget_def)
next
  assume a: "mergeMinedTargets r = [(T1, c1), (T2, c2), (T3, c3)] \<and> T1 < T2 \<and> T2 < T3 \<and>
    c1 \<in> fst ` set (mergeMinedChains r) \<and> c2 \<noteq> c1"
  then show "LowestTarget r = T1"
    by (simp add: LowestTarget_def)
  from a show "LowestTarget (RemoveMergedBlock c1 r) = T2"
    by (simp add: LowestTarget_def RemoveMergedBlock_def)
qed

text \<open>A registry of three chains, before and after the removal of the chain of the lowest target, and the empty registry.\<close>

theorem LowestTarget_is_smallest_witness:
  "std_map_ok [(10 :: arith_uint256, 1 :: uint160), (20, 2), (30, 3)] \<and>
   LowestTarget \<lparr>mergeMinedChains = [(1, 10), (2, 20), (3, 30)],
                 mergeMinedTargets = [(10, 1), (20, 2), (30, 3)]\<rparr> = 10 \<and>
   LowestTarget (RemoveMergedBlock 1
     \<lparr>mergeMinedChains = [(1, 10), (2, 20), (3, 30)],
      mergeMinedTargets = [(10, 1), (20, 2), (30, 3)]\<rparr>) = 20 \<and>
   LowestTarget \<lparr>mergeMinedChains = [], mergeMinedTargets = []\<rparr> = 0"
proof -
  let ?r = "\<lparr>mergeMinedChains = [(1, 10), (2, 20), (3, 30)],
             mergeMinedTargets = [(10, 1), (20, 2), (30, 3)]\<rparr>"
  have ok: "std_map_ok [(10 :: arith_uint256, 1 :: uint160), (20, 2), (30, 3)]"
    by (simp add: std_map_ok_def)
  have e: "LowestTarget \<lparr>mergeMinedChains = [], mergeMinedTargets = []\<rparr> = 0"
    using LowestTarget_is_smallest [of "\<lparr>mergeMinedChains = [], mergeMinedTargets = []\<rparr>"]
    by (simp add: std_map_ok_def)
  from LowestTarget_is_smallest [of ?r 10 1 20 2 30 3] ok e show ?thesis
    by simp
qed

section \<open>The proof-of-stake nonce\<close>

lemma low32_is_mask: "(0xffffffff :: arith_uint256) = mask 32"
  by (simp add: mask_eq_exp_minus_1)

lemma arNonce_low32:
  "arNonce H3 (push_bit 128 h OR arNonce H3 n p t v) p t v = arNonce H3 n p t v"
  unfolding arNonce_def low32_is_mask
  by (rule bit_word_eqI) (auto simp add: bit_simps)

text \<open>
  C9. After \<^verbatim>\<open>SetPOSEntropy(pastHash, txid, voutNum)\<close> on any nonce,
  \<^verbatim>\<open>CheckPOSEntropy(pastHash, txid, voutNum)\<close> on the resulting nonce returns true.
\<close>

theorem CheckPOSEntropy_after_Set:
  "CheckPOSEntropy H3 H1 (SetPOSEntropy H3 H1 n pastHash txid voutNum) pastHash txid voutNum"
  by (simp add: CheckPOSEntropy_def SetPOSEntropy_def Let_def arNonce_low32)

section \<open>COpRetProof\<close>






end
